theory Spec2Isabelle
  imports Main
begin

section \<open>Data model\<close>

text \<open>
  The validator works on the raw bytes of a document. A Go \<^verbatim>\<open>[]byte\<close> and a Go
  \<^verbatim>\<open>string\<close> are both byte sequences, modelled as \<^typ>\<open>string\<close> (a list of
  8-bit characters). Go's \<^verbatim>\<open>int\<close> is modelled as \<^typ>\<open>int\<close>: every number
  here is a length, an index or a line number of a buffer held in memory, far from the
  64-bit bounds.
\<close>

record ValidationError =
  LineNumber :: int
  Column :: int
  Line :: string
  ErrorType :: string
  Message :: string
  Content :: string

text \<open>
  \<^verbatim>\<open>ValidationOptions\<close> of the plain entry point, and of the coloured entry
  point, which adds the field \<^verbatim>\<open>Color\<close>. The checkers of both entry points
  read \<^verbatim>\<open>opts.MaxErrors\<close> only, and are written once, over the record scheme.
\<close>

record ValidationOptions =
  MaxErrors :: int
  Debug :: bool

record ColorValidationOptions = ValidationOptions +
  Color :: bool

text \<open>The run-time panics of the Go program: that of \<^verbatim>\<open>regexp.MustCompile\<close>,
  which carries the parser's error message, and those of the bounds checks of an
  index and of a slice expression.\<close>

datatype panic =
    RegexpPanic string
  | IndexOutOfRange
  | SliceBoundsOutOfRange

text \<open>Sequencing of steps that may panic: the first panic ends the run.\<close>

definition and_then :: "panic + 'a \<Rightarrow> ('a \<Rightarrow> panic + 'b) \<Rightarrow> panic + 'b" where
  "and_then m f = (case m of Inl p \<Rightarrow> Inl p | Inr x \<Rightarrow> f x)"

text \<open>\<^verbatim>\<open>s[k]\<close> and \<^verbatim>\<open>s[a:b]\<close> on a string, with Go's bounds checks.\<close>

definition index_at :: "string \<Rightarrow> nat \<Rightarrow> panic + char" where
  "index_at s k = (if k < length s then Inr (s ! k) else Inl IndexOutOfRange)"

definition slice :: "string \<Rightarrow> nat \<Rightarrow> nat \<Rightarrow> panic + string" where
  "slice s a b =
     (if a \<le> b \<and> b \<le> length s then Inr (take (b - a) (drop a s))
      else Inl SliceBoundsOutOfRange)"

section \<open>Lines of a buffer\<close>

text \<open>\<^verbatim>\<open>bytes.Split(content, []byte("\n"))\<close>: the pieces between newlines; an
  empty buffer gives one empty piece, a trailing newline a last empty piece.\<close>

fun split_lines :: "string \<Rightarrow> string \<Rightarrow> string list" where
  "split_lines cur [] = [cur]"
| "split_lines cur (c # cs) =
     (if c = CHR 0x0A then cur # split_lines [] cs else split_lines (cur @ [c]) cs)"

definition bytes_Split_nl :: "string \<Rightarrow> string list" where
  "bytes_Split_nl content = split_lines [] content"

text \<open>
  \<^verbatim>\<open>bufio.Scanner\<close> with the default split function \<^verbatim>\<open>ScanLines\<close>: one token per
  line, the newline and one carriage return before it dropped, no token for an empty
  rest at the end of the input. The scanner's buffer holds at most
  \<^verbatim>\<open>MaxScanTokenSize\<close> bytes: at a line that does not fit, \<^verbatim>\<open>Scan\<close> returns
  false and the tokens end there.
\<close>

definition MaxScanTokenSize :: nat where
  "MaxScanTokenSize = 64 * 1024"

definition dropCR :: "string \<Rightarrow> string" where
  "dropCR data = (if data \<noteq> [] \<and> last data = CHR 0x0D then butlast data else data)"

definition scanner_tokens :: "string \<Rightarrow> string list" where
  "scanner_tokens content =
     (let pieces = bytes_Split_nl content;
          pieces' = (if last pieces = [] then butlast pieces else pieces)
      in map dropCR (takeWhile (\<lambda>l. length l < MaxScanTokenSize) pieces'))"

section \<open>UTF-8 decoding\<close>

text \<open>
  A \<^verbatim>\<open>range\<close> loop over a string and the regexp engine both read the input
  rune by rune with \<^verbatim>\<open>utf8.DecodeRuneInString\<close>: the code point and its width in
  bytes, and \<^verbatim>\<open>(RuneError, 1)\<close> at a byte that starts no valid encoding.
  \<open>utf8_first\<close> is the library's table of first bytes: the size of the encoding and
  the accepted range of the second byte.
\<close>

definition RuneError :: nat where
  "RuneError = 0xFFFD"

definition utf8_first :: "nat \<Rightarrow> (nat \<times> nat \<times> nat) option" where
  "utf8_first b0 =
     (if 0xC2 \<le> b0 \<and> b0 \<le> 0xDF then Some (2, 0x80, 0xBF)
      else if b0 = 0xE0 then Some (3, 0xA0, 0xBF)
      else if 0xE1 \<le> b0 \<and> b0 \<le> 0xEC then Some (3, 0x80, 0xBF)
      else if b0 = 0xED then Some (3, 0x80, 0x9F)
      else if 0xEE \<le> b0 \<and> b0 \<le> 0xEF then Some (3, 0x80, 0xBF)
      else if b0 = 0xF0 then Some (4, 0x90, 0xBF)
      else if 0xF1 \<le> b0 \<and> b0 \<le> 0xF3 then Some (4, 0x80, 0xBF)
      else if b0 = 0xF4 then Some (4, 0x80, 0x8F)
      else None)"

definition continuation :: "nat \<Rightarrow> bool" where
  "continuation b = (0x80 \<le> b \<and> b \<le> 0xBF)"

fun DecodeRuneInString :: "string \<Rightarrow> nat \<times> nat" where
  "DecodeRuneInString [] = (RuneError, 0)"
| "DecodeRuneInString (c0 # cs) =
     (let s0 = of_char c0 in
      if s0 < 0x80 then (s0, 1)
      else (case utf8_first s0 of
              None \<Rightarrow> (RuneError, 1)
            | Some (sz, lo, hi) \<Rightarrow>
                if length cs + 1 < sz then (RuneError, 1)
                else (let s1 = of_char (cs ! 0) in
                  if s1 < lo \<or> hi < s1 then (RuneError, 1)
                  else if sz \<le> 2 then ((s0 mod 32) * 64 + s1 mod 64, 2)
                  else (let s2 = of_char (cs ! 1) in
                    if \<not> continuation s2 then (RuneError, 1)
                    else if sz \<le> 3
                      then ((s0 mod 16) * 4096 + (s1 mod 64) * 64 + s2 mod 64, 3)
                    else (let s3 = of_char (cs ! 2) in
                      if \<not> continuation s3 then (RuneError, 1)
                      else ((s0 mod 8) * 262144 + (s1 mod 64) * 4096 + (s2 mod 64) * 64
                              + s3 mod 64, 4))))))"

lemma utf8_first_sz:
  "utf8_first b = Some (sz, lo, hi) \<Longrightarrow> 2 \<le> sz \<and> sz \<le> 4 \<and> 0x80 \<le> lo \<and> 0xC2 \<le> b"
  by (auto simp: utf8_first_def split: if_splits)

lemma decode_width_pos: "s \<noteq> [] \<Longrightarrow> 1 \<le> snd (DecodeRuneInString s)"
  by (cases s) (auto simp: Let_def split: option.splits)

lemma decode_width_le: "snd (DecodeRuneInString s) \<le> length s"
proof (cases s)
  case Nil
  then show ?thesis by simp
next
  case (Cons c0 cs)
  show ?thesis
  proof (cases "utf8_first (of_char c0)")
    case None
    then show ?thesis using Cons by (simp add: Let_def)
  next
    case (Some t)
    obtain sz lo hi where t: "t = (sz, lo, hi)" by (cases t)
    have "2 \<le> sz \<and> sz \<le> 4" using Some t utf8_first_sz by blast
    then show ?thesis using Cons Some t by (auto simp: Let_def)
  qed
qed

text \<open>\<^verbatim>\<open>string(r)\<close> for a rune, and for a byte converted to a rune: the UTF-8
  encoding of the code point, that of \<^verbatim>\<open>RuneError\<close> for a surrogate or a value
  beyond the Unicode range.\<close>

definition encodeRune :: "nat \<Rightarrow> string" where
  "encodeRune r =
     (if r < 0x80 then [char_of r]
      else if r < 0x800 then [char_of (0xC0 + r div 64), char_of (0x80 + r mod 64)]
      else if 0x10FFFF < r \<or> (0xD800 \<le> r \<and> r \<le> 0xDFFF)
        then [CHR 0xEF, CHR 0xBF, CHR 0xBD]
      else if r < 0x10000
        then [char_of (0xE0 + r div 4096), char_of (0x80 + (r div 64) mod 64),
              char_of (0x80 + r mod 64)]
      else [char_of (0xF0 + r div 262144), char_of (0x80 + (r div 4096) mod 64),
            char_of (0x80 + (r div 64) mod 64), char_of (0x80 + r mod 64)])"

section \<open>Regular expressions of Go's regexp package\<close>

text \<open>
  The package \<^verbatim>\<open>regexp\<close> is Go's library, not part of the repository. The model
  has the pattern as the source writes it (\<open>pattern\<close>, the syntax tree of the pattern
  string), the parser's verdict on it (\<open>compile\<close>), and the matcher of the compiled
  expression (\<open>ms\<close>). Go's syntax is that of RE2: it has no lookahead, and the parser
  rejects \<^verbatim>\<open>(?!\<close> with the error "invalid or unsupported Perl syntax". A
  counted repetition is expanded as the library's simplifier does; counts above 1000 are
  rejected. Capture groups carry their number.
\<close>

datatype pattern =
    PEmpty
  | PLit char
  | PClass bool "(char \<times> char) list"
  | PAnyNotNL
  | PEndText
  | PCat pattern pattern
  | PAlt pattern pattern
  | PStar pattern
  | PRepeat pattern nat "nat option"
  | PCapture nat pattern
  | PNegLookahead pattern

datatype regex =
    REmpty
  | RLit nat
  | RClass bool "(nat \<times> nat) list"
  | RAnyNotNL
  | REndText
  | RCat regex regex
  | RAlt regex regex
  | RStar regex
  | RQuest regex
  | RCapture nat regex

text \<open>A literal string, a sequence and an alternation of several patterns.\<close>

fun PStr :: "string \<Rightarrow> pattern" where
  "PStr [] = PEmpty"
| "PStr [c] = PLit c"
| "PStr (c # cs) = PCat (PLit c) (PStr cs)"

fun PSeq :: "pattern list \<Rightarrow> pattern" where
  "PSeq [] = PEmpty"
| "PSeq [p] = p"
| "PSeq (p # ps) = PCat p (PSeq ps)"

fun PAlts :: "pattern list \<Rightarrow> pattern" where
  "PAlts [] = PEmpty"
| "PAlts [p] = p"
| "PAlts (p # ps) = PAlt p (PAlts ps)"

fun catN :: "nat \<Rightarrow> regex \<Rightarrow> regex \<Rightarrow> regex" where
  "catN 0 r rest = rest"
| "catN (Suc k) r rest = RCat r (catN k r rest)"

fun optN :: "nat \<Rightarrow> regex \<Rightarrow> regex" where
  "optN 0 r = REmpty"
| "optN (Suc k) r = RQuest (RCat r (optN k r))"

fun compile :: "pattern \<Rightarrow> string + regex" where
  "compile PEmpty = Inr REmpty"
| "compile (PLit c) = Inr (RLit (of_char c))"
| "compile (PClass neg rs) =
     Inr (RClass neg (map (\<lambda>(lo, hi). (of_char lo, of_char hi)) rs))"
| "compile PAnyNotNL = Inr RAnyNotNL"
| "compile PEndText = Inr REndText"
| "compile (PCat p q) =
     (case compile p of Inl e \<Rightarrow> Inl e
      | Inr r \<Rightarrow> (case compile q of Inl e \<Rightarrow> Inl e | Inr r' \<Rightarrow> Inr (RCat r r')))"
| "compile (PAlt p q) =
     (case compile p of Inl e \<Rightarrow> Inl e
      | Inr r \<Rightarrow> (case compile q of Inl e \<Rightarrow> Inl e | Inr r' \<Rightarrow> Inr (RAlt r r')))"
| "compile (PStar p) = (case compile p of Inl e \<Rightarrow> Inl e | Inr r \<Rightarrow> Inr (RStar r))"
| "compile (PRepeat p m None) =
     (case compile p of Inl e \<Rightarrow> Inl e
      | Inr r \<Rightarrow> if m > 1000 then Inl ''error parsing regexp: invalid repeat count''
                else Inr (catN m r (RStar r)))"
| "compile (PRepeat p m (Some n)) =
     (case compile p of Inl e \<Rightarrow> Inl e
      | Inr r \<Rightarrow> if m > 1000 \<or> n > 1000 \<or> n < m
                  then Inl ''error parsing regexp: invalid repeat count''
                else Inr (catN m r (optN (n - m) r)))"
| "compile (PCapture k p) =
     (case compile p of Inl e \<Rightarrow> Inl e | Inr r \<Rightarrow> Inr (RCapture k r))"
| "compile (PNegLookahead p) =
     Inl ''error parsing regexp: invalid or unsupported Perl syntax: `(?!`''"

text \<open>\<^verbatim>\<open>regexp.MustCompile\<close> panics where \<^verbatim>\<open>regexp.Compile\<close> returns an
  error.\<close>

definition MustCompile :: "pattern \<Rightarrow> panic + regex" where
  "MustCompile p = (case compile p of Inl e \<Rightarrow> Inl (RegexpPanic e) | Inr r \<Rightarrow> Inr r)"

text \<open>
  Matching. A state is the byte position, the rest of the input from there and the
  capture groups set so far (the latest first). \<open>ms r st\<close> lists the states in which a
  match of \<open>r\<close> from \<open>st\<close> can end, in the order of preference of a leftmost-first
  match: the first alternative before the second, a longer repetition before a shorter
  one. The head of the list is the match the library reports.
\<close>

type_synonym caps = "(nat \<times> nat \<times> nat) list"
type_synonym mstate = "nat \<times> string \<times> caps"

definition in_class :: "bool \<Rightarrow> (nat \<times> nat) list \<Rightarrow> nat \<Rightarrow> bool" where
  "in_class neg rs r = (neg \<noteq> (\<exists>(lo, hi) \<in> set rs. lo \<le> r \<and> r \<le> hi))"

definition step1 :: "(nat \<Rightarrow> bool) \<Rightarrow> mstate \<Rightarrow> mstate list" where
  "step1 ok st =
     (case st of (pos, s, c) \<Rightarrow>
        if s = [] then []
        else (let (r, w) = DecodeRuneInString s
              in if ok r then [(pos + w, drop w s, c)] else []))"

function ms :: "regex \<Rightarrow> mstate \<Rightarrow> mstate list" where
  "ms REmpty st = [st]"
| "ms (RLit ch) st = step1 (\<lambda>r. r = ch) st"
| "ms (RClass neg rs) st = step1 (in_class neg rs) st"
| "ms RAnyNotNL st = step1 (\<lambda>r. r \<noteq> 0x0A) st"
| "ms REndText st = (if fst (snd st) = [] then [st] else [])"
| "ms (RCat r r') st = concat (map (ms r') (ms r st))"
| "ms (RAlt r r') st = ms r st @ ms r' st"
| "ms (RStar r) st =
     concat (map (\<lambda>st'. if length (fst (snd st')) < length (fst (snd st))
                          then ms (RStar r) st' else [])
                 (ms r st)) @ [st]"
| "ms (RQuest r) st = ms r st @ [st]"
| "ms (RCapture k r) st =
     map (\<lambda>(pos', s', c'). (pos', s', (k, fst st, pos') # c')) (ms r st)"
  by pat_completeness auto
termination
  by (relation "inv_image (less_than <*lex*> less_than)
                  (\<lambda>(r, st). (size r, length (fst (snd st))))") auto

lemmas ms_star = ms.simps(8)
declare ms.simps(8) [simp del]

definition total_len :: "mstate \<Rightarrow> nat" where
  "total_len st = fst st + length (fst (snd st))"

definition rest_len :: "mstate \<Rightarrow> nat" where
  "rest_len st = length (fst (snd st))"

lemma step1_bounds:
  assumes "st' \<in> set (step1 ok st)"
  shows "total_len st' = total_len st \<and> rest_len st' < rest_len st"
proof -
  obtain p s c where st: "st = (p, s, c)" by (cases st)
  obtain r w where d: "DecodeRuneInString s = (r, w)" by fastforce
  have "s \<noteq> [] \<Longrightarrow> 1 \<le> w \<and> w \<le> length s"
    using decode_width_pos [of s] decode_width_le [of s] d by simp
  then show ?thesis
    using assms st d by (auto simp: step1_def total_len_def rest_len_def split: if_splits)
qed

lemma ms_bounds:
  "st' \<in> set (ms r st) \<Longrightarrow> total_len st' = total_len st \<and> rest_len st' \<le> rest_len st"
proof (induction r st arbitrary: st' rule: ms.induct)
  case (1 st)
  then show ?case by simp
next
  case (2 ch st)
  then show ?case using step1_bounds by fastforce
next
  case (3 neg rs st)
  then show ?case using step1_bounds by fastforce
next
  case (4 st)
  then show ?case using step1_bounds by fastforce
next
  case (5 st)
  then show ?case by (simp split: if_splits)
next
  case (6 r r' st)
  from 6(3) obtain st1 where a: "st1 \<in> set (ms r st)" and b: "st' \<in> set (ms r' st1)"
    by auto
  from 6(1) [OF a] 6(2) [OF a b] show ?case by simp
next
  case (7 r r' st)
  from 7(3) have "st' \<in> set (ms r st) \<or> st' \<in> set (ms r' st)" by simp
  then show ?case using 7(1) 7(2) by blast
next
  case (8 r st)
  from 8(3) consider "st' = st"
    | st1 where "st1 \<in> set (ms r st)" "length (fst (snd st1)) < length (fst (snd st))"
        "st' \<in> set (ms (RStar r) st1)"
    by (subst (asm) ms_star) (auto split: if_splits)
  then show ?case
  proof cases
    case 1
    then show ?thesis by simp
  next
    case 2
    from 8(1) [OF 2(1)] 8(2) [OF 2(1) 2(2) 2(3)] show ?thesis by simp
  qed
next
  case (9 r st)
  from 9(2) have "st' \<in> set (ms r st) \<or> st' = st" by auto
  then show ?case using 9(1) by blast
next
  case (10 k r st)
  from 10(2) obtain st1 where a: "st1 \<in> set (ms r st)"
    and b: "st' = (fst st1, fst (snd st1), (k, fst st, fst st1) # snd (snd st1))"
    by (auto simp: case_prod_beta)
  from 10(1) [OF a] b show ?case by (simp add: total_len_def rest_len_def)
qed

text \<open>
  The unanchored search of \<^verbatim>\<open>doExecute\<close>: the leftmost position, taken rune by
  rune, at which the expression matches, with the preferred match there. The result is
  the start, the end and the capture groups.
\<close>

function findFirst :: "regex \<Rightarrow> nat \<Rightarrow> string \<Rightarrow> (nat \<times> nat \<times> caps) option" where
  "findFirst re pos s =
     (case ms re (pos, s, []) of
        (e, s', c) # _ \<Rightarrow> Some (pos, e, c)
      | [] \<Rightarrow> (if s = [] then None
               else (let w = snd (DecodeRuneInString s)
                     in findFirst re (pos + w) (drop w s))))"
  by pat_completeness auto
termination
proof (relation "measure (\<lambda>(re, pos, s). length s)", goal_cases)
  case 1
  then show ?case by simp
next
  case (2 re pos s w)
  then show ?case using decode_width_pos [of s] by (cases s) auto
qed

declare findFirst.simps [simp del]

lemma findFirst_bounds:
  "findFirst re pos s = Some (b, e, c) \<Longrightarrow> pos \<le> b \<and> b \<le> e \<and> e \<le> pos + length s"
proof (induction re pos s rule: findFirst.induct)
  case (1 re pos s)
  note ff = 1(2) [unfolded findFirst.simps [of re pos s]]
  show ?case
  proof (cases "ms re (pos, s, [])")
    case Nil
    with ff have ne: "s \<noteq> []" by (auto split: if_splits)
    let ?w = "snd (DecodeRuneInString s)"
    from ff Nil ne have "findFirst re (pos + ?w) (drop ?w s) = Some (b, e, c)"
      by (simp add: Let_def)
    from 1(1) [OF Nil ne refl this] decode_width_le [of s] show ?thesis by auto
  next
    case (Cons st sts)
    obtain e' s' c' where st: "st = (e', s', c')" by (cases st)
    from ff Cons st have eq: "b = pos" "e = e'" "c = c'" by auto
    have "st \<in> set (ms re (pos, s, []))" using Cons by simp
    from ms_bounds [OF this] st eq show ?thesis
      by (auto simp: total_len_def rest_len_def)
  qed
qed

text \<open>A match found by the search is a match of the expression at its start.\<close>

lemma findFirst_match:
  "findFirst re pos s = Some (b, e, c) \<Longrightarrow>
     \<exists>s' sts. ms re (b, drop (b - pos) s, []) = (e, s', c) # sts"
proof (induction re pos s rule: findFirst.induct)
  case (1 re pos s)
  note ff = 1(2) [unfolded findFirst.simps [of re pos s]]
  show ?case
  proof (cases "ms re (pos, s, [])")
    case Nil
    with ff have ne: "s \<noteq> []" by (auto split: if_splits)
    let ?w = "snd (DecodeRuneInString s)"
    from ff Nil ne have f': "findFirst re (pos + ?w) (drop ?w s) = Some (b, e, c)"
      by (simp add: Let_def)
    from findFirst_bounds [OF f'] have "pos + ?w \<le> b" by simp
    then have "drop (b - (pos + ?w)) (drop ?w s) = drop (b - pos) s" by simp
    with 1(1) [OF Nil ne refl f'] show ?thesis by simp
  next
    case (Cons st sts)
    obtain e' s' c' where st: "st = (e', s', c')" by (cases st)
    from ff Cons st have eq: "b = pos" "e = e'" "c = c'" by auto
    with Cons st show ?thesis by simp
  qed
qed

text \<open>
  \<^verbatim>\<open>FindStringIndex\<close> and \<^verbatim>\<open>MatchString\<close> search from the start of the string.
  \<^verbatim>\<open>FindAllStringSubmatchIndex(s, -1)\<close> is the library's loop \<^verbatim>\<open>allMatches\<close>:
  successive searches, each from the end of the match before; an empty match moves the
  position on by one rune and is dropped when it touches the match before.
\<close>

definition FindStringIndex :: "regex \<Rightarrow> string \<Rightarrow> (nat \<times> nat) option" where
  "FindStringIndex re s =
     (case findFirst re 0 s of None \<Rightarrow> None | Some (b, e, c) \<Rightarrow> Some (b, e))"

definition MatchString :: "regex \<Rightarrow> string \<Rightarrow> bool" where
  "MatchString re s = (findFirst re 0 s \<noteq> None)"

function allMatches :: "regex \<Rightarrow> nat \<Rightarrow> string \<Rightarrow> int \<Rightarrow> (nat \<times> nat \<times> caps) list" where
  "allMatches re pos s prevMatchEnd =
     (case findFirst re pos s of
        None \<Rightarrow> []
      | Some (b, e, c) \<Rightarrow>
          if e = pos then
            (let accept = (int b \<noteq> prevMatchEnd);
                 w = snd (DecodeRuneInString s)
             in (if accept then [(b, e, c)] else []) @
                (if s = [] then [] else allMatches re (pos + w) (drop w s) (int e)))
          else (b, e, c) # allMatches re e (drop (e - pos) s) (int e))"
  by pat_completeness auto
termination
proof (relation "measure (\<lambda>(re, pos, s, prev). length s)", goal_cases)
  case 1
  then show ?case by simp
next
  case (2 re pos s prevMatchEnd x2 b y e c accept w)
  then show ?case using decode_width_pos [of s] by (cases s) auto
next
  case (3 re pos s prevMatchEnd x2 b y e c)
  then have "findFirst re pos s = Some (b, e, c)" by simp
  from findFirst_bounds [OF this] 3 show ?case by auto
qed

declare allMatches.simps [simp del]

definition FindAllStringSubmatchIndex :: "regex \<Rightarrow> string \<Rightarrow> (nat \<times> nat \<times> caps) list" where
  "FindAllStringSubmatchIndex re s = allMatches re 0 s (- 1)"

section \<open>findErrorPosition\<close>

text \<open>The counting loop \<^verbatim>\<open>for i := 0; i < offset; i++\<close> over the bytes before the
  offset.\<close>

fun countLineCol :: "string \<Rightarrow> int \<Rightarrow> int \<Rightarrow> int \<times> int" where
  "countLineCol [] line col = (line, col)"
| "countLineCol (c # cs) line col =
     (if c = CHR 0x0A then countLineCol cs (line + 1) 1 else countLineCol cs line (col + 1))"

text \<open>The scanning loop: the token whose number is \<open>line\<close>, or the empty string when
  the scanner stops before it.\<close>

fun scanFor :: "string list \<Rightarrow> int \<Rightarrow> int \<Rightarrow> string" where
  "scanFor [] currentLine line = []"
| "scanFor (t # ts) currentLine line =
     (if currentLine = line then t else scanFor ts (currentLine + 1) line)"

definition findErrorPosition :: "string \<Rightarrow> int \<Rightarrow> int \<times> int \<times> string" where
  "findErrorPosition content offset =
     (if offset < 0 \<or> offset \<ge> int (length content) then (1, 1, [])
      else (let (line, col) = countLineCol (take (nat offset) content) 1 1
            in (line, col, scanFor (scanner_tokens content) 1 line)))"

section \<open>validateBasicXML\<close>

text \<open>
  The tokenizer is \<^verbatim>\<open>encoding/xml\<close> of the Go library, which is not part of the
  repository. It enters the model as a parameter \<open>dec\<close>: the results of the successive
  calls of \<^verbatim>\<open>decoder.Token()\<close> on a buffer, up to the call that returns
  \<^verbatim>\<open>io.EOF\<close> (the end of the list). A result is a token, a nil token without an
  error, an \<^verbatim>\<open>*xml.SyntaxError\<close> with its field \<^verbatim>\<open>Line\<close> and the text of
  \<^verbatim>\<open>err.Error()\<close>, or another error with its text.
\<close>

datatype token_result =
    Token
  | NilToken
  | SyntaxError int string
  | OtherError string

type_synonym decoder = "string \<Rightarrow> token_result list"

fun tokenLoop :: "string \<Rightarrow> token_result list \<Rightarrow> ValidationError list" where
  "tokenLoop content [] = []"
| "tokenLoop content (Token # rs) = tokenLoop content rs"
| "tokenLoop content (NilToken # rs) = []"
| "tokenLoop content (SyntaxError errLine msg # rs) =
     (let (line, col, lineContent) = findErrorPosition content errLine
      in [\<lparr>LineNumber = line, Column = col, Line = lineContent,
           ErrorType = ''Basic XML Syntax Error'', Message = msg, Content = []\<rparr>])"
| "tokenLoop content (OtherError msg # rs) =
     [\<lparr>LineNumber = 0, Column = 0, Line = [],
       ErrorType = ''XML Error'', Message = msg, Content = []\<rparr>]"

definition validateBasicXML :: "decoder \<Rightarrow> string \<Rightarrow> ValidationError list" where
  "validateBasicXML dec content = tokenLoop content (dec content)"


section \<open>The secondary checkers\<close>

text \<open>
  Each checker splits the buffer into lines and runs the same loop:
  \<^verbatim>\<open>for i, line := range lines { ...; if opts.MaxErrors > 0 && len(errors) >= opts.MaxErrors { break } }\<close>.
  \<open>lineLoop\<close> is that loop; \<open>body i line errors\<close> is the body of one checker, which
  returns the list \<open>errors\<close> with the issues of the line appended, or panics.
\<close>

type_synonym line_body =
  "nat \<Rightarrow> string \<Rightarrow> ValidationError list \<Rightarrow> panic + ValidationError list"

fun lineLoop :: "line_body \<Rightarrow> int \<Rightarrow> nat \<Rightarrow> string list \<Rightarrow> ValidationError list
                  \<Rightarrow> panic + ValidationError list" where
  "lineLoop body maxErrors i [] errors = Inr errors"
| "lineLoop body maxErrors i (line # lines) errors =
     (case body i line errors of
        Inl p \<Rightarrow> Inl p
      | Inr errors' \<Rightarrow>
          if maxErrors > 0 \<and> int (length errors') \<ge> maxErrors then Inr errors'
          else lineLoop body maxErrors (Suc i) lines errors')"

subsection \<open>validateCDATASections\<close>

text \<open>
  The six patterns, in the order of the source:
  \<^verbatim>\<open><!\[CDATA\[[^a-zA-Z0-9 ]\<close>, \<^verbatim>\<open><!\[CDATA\[!\<close>,
  \<^verbatim>\<open><!\[CDATA\[(?:(?!\]\]>).)*$\<close>, \<^verbatim>\<open><!\[CDATA\[.*<!\[CDATA\[\<close>,
  \<^verbatim>\<open><!\[CDATA\[.*\]\]>.*\]\]>\<close> and \<^verbatim>\<open><!\[CDATA\[\]\]>\<close>.
\<close>

definition reCDATAWithSpecialChar :: pattern where
  "reCDATAWithSpecialChar =
     PCat (PStr ''<![CDATA['')
          (PClass True [(CHR ''a'', CHR ''z''), (CHR ''A'', CHR ''Z''),
                        (CHR ''0'', CHR ''9''), (CHR '' '', CHR '' '')])"

definition reCDATAWithExclamation :: pattern where
  "reCDATAWithExclamation = PCat (PStr ''<![CDATA['') (PLit CHR ''!'')"

definition reUnclosedCDATA :: pattern where
  "reUnclosedCDATA =
     PSeq [PStr ''<![CDATA['',
           PStar (PCat (PNegLookahead (PStr '']]>'')) PAnyNotNL),
           PEndText]"

definition reNestedCDATA :: pattern where
  "reNestedCDATA = PSeq [PStr ''<![CDATA['', PStar PAnyNotNL, PStr ''<![CDATA['']"

definition reMultiClosingCDATA :: pattern where
  "reMultiClosingCDATA =
     PSeq [PStr ''<![CDATA['', PStar PAnyNotNL, PStr '']]>'', PStar PAnyNotNL, PStr '']]>'']"

definition reEmptyCDATA :: pattern where
  "reEmptyCDATA = PStr ''<![CDATA[]]>''"

text \<open>The six checks of one line, each appending at most one issue.\<close>

definition cdataSpecialChar :: "regex \<Rightarrow> line_body" where
  "cdataSpecialChar re i lineStr errors =
     (case FindStringIndex re lineStr of
        None \<Rightarrow> Inr errors
      | Some (m0, m1) \<Rightarrow>
          and_then (index_at lineStr (m0 + 9)) (\<lambda>badChar.
            Inr (errors @
              [\<lparr>LineNumber = int i + 1, Column = int m0 + 9, Line = lineStr,
                ErrorType = ''Special character after CDATA opening'',
                Message = ''Special character '' @ [CHR 0x27] @ encodeRune (of_char badChar)
                            @ [CHR 0x27] @ '' found immediately after CDATA opening'',
                Content = ''<![CDATA['' @ encodeRune (of_char badChar)\<rparr>])))"

definition cdataExclamation :: "regex \<Rightarrow> line_body" where
  "cdataExclamation re i lineStr errors =
     (case FindStringIndex re lineStr of
        None \<Rightarrow> Inr errors
      | Some (m0, m1) \<Rightarrow>
          Inr (errors @
            [\<lparr>LineNumber = int i + 1, Column = int m0 + 9, Line = lineStr,
              ErrorType = ''Exclamation mark after CDATA opening'',
              Message = ''Exclamation mark found immediately after CDATA opening'',
              Content = ''<![CDATA[!''\<rparr>]))"

definition cdataUnclosed :: "regex \<Rightarrow> line_body" where
  "cdataUnclosed re i lineStr errors =
     (case FindStringIndex re lineStr of
        None \<Rightarrow> Inr errors
      | Some (m0, m1) \<Rightarrow>
          and_then (slice lineStr m0 (length lineStr)) (\<lambda>content.
            Inr (errors @
              [\<lparr>LineNumber = int i + 1, Column = int m0, Line = lineStr,
                ErrorType = ''Unclosed CDATA section'',
                Message = ''CDATA section is not properly closed with ]]>'',
                Content = content\<rparr>])))"

definition cdataNested :: "regex \<Rightarrow> line_body" where
  "cdataNested re i lineStr errors =
     (case FindStringIndex re lineStr of
        None \<Rightarrow> Inr errors
      | Some (m0, m1) \<Rightarrow>
          and_then (slice lineStr m0 m1) (\<lambda>content.
            Inr (errors @
              [\<lparr>LineNumber = int i + 1, Column = int m0, Line = lineStr,
                ErrorType = ''Nested CDATA sections'',
                Message = ''CDATA sections cannot be nested'',
                Content = content\<rparr>])))"

definition cdataMultiClosing :: "regex \<Rightarrow> line_body" where
  "cdataMultiClosing re i lineStr errors =
     (case FindStringIndex re lineStr of
        None \<Rightarrow> Inr errors
      | Some (m0, m1) \<Rightarrow>
          and_then (slice lineStr m0 m1) (\<lambda>content.
            Inr (errors @
              [\<lparr>LineNumber = int i + 1, Column = int m0, Line = lineStr,
                ErrorType = ''Multiple CDATA closing sequences'',
                Message = ''Found multiple '' @ [CHR 0x27] @ '']]>'' @ [CHR 0x27]
                            @ '' sequences in a single CDATA block'',
                Content = content\<rparr>])))"

definition cdataEmpty :: "regex \<Rightarrow> line_body" where
  "cdataEmpty re i lineStr errors =
     (case FindStringIndex re lineStr of
        None \<Rightarrow> Inr errors
      | Some (m0, m1) \<Rightarrow>
          Inr (errors @
            [\<lparr>LineNumber = int i + 1, Column = int m0, Line = lineStr,
              ErrorType = ''Empty CDATA section'',
              Message = ''CDATA section is empty'',
              Content = ''<![CDATA[]]>''\<rparr>]))"

definition cdataLine ::
  "regex \<Rightarrow> regex \<Rightarrow> regex \<Rightarrow> regex \<Rightarrow> regex \<Rightarrow> regex \<Rightarrow> line_body" where
  "cdataLine re1 re2 re3 re4 re5 re6 i lineStr errors =
     and_then (cdataSpecialChar re1 i lineStr errors) (\<lambda>errors.
     and_then (cdataExclamation re2 i lineStr errors) (\<lambda>errors.
     and_then (cdataUnclosed re3 i lineStr errors) (\<lambda>errors.
     and_then (cdataNested re4 i lineStr errors) (\<lambda>errors.
     and_then (cdataMultiClosing re5 i lineStr errors) (\<lambda>errors.
     cdataEmpty re6 i lineStr errors)))))"

text \<open>The function compiles its six patterns before the loop over the lines.\<close>

definition validateCDATASections ::
  "string \<Rightarrow> 'a ValidationOptions_scheme \<Rightarrow> panic + ValidationError list" where
  "validateCDATASections content opts =
     (let lines = bytes_Split_nl content in
      and_then (MustCompile reCDATAWithSpecialChar) (\<lambda>re1.
      and_then (MustCompile reCDATAWithExclamation) (\<lambda>re2.
      and_then (MustCompile reUnclosedCDATA) (\<lambda>re3.
      and_then (MustCompile reNestedCDATA) (\<lambda>re4.
      and_then (MustCompile reMultiClosingCDATA) (\<lambda>re5.
      and_then (MustCompile reEmptyCDATA) (\<lambda>re6.
        lineLoop (cdataLine re1 re2 re3 re4 re5 re6) (MaxErrors opts) 0 lines [])))))))"

subsection \<open>validateControlCharacters\<close>

text \<open>\<^verbatim>\<open>for j, r := range lineStr\<close>: the byte index and the rune of each step of
  the decoding, from byte index \<open>j\<close> on.\<close>

function rangeString :: "nat \<Rightarrow> string \<Rightarrow> (nat \<times> nat) list" where
  "rangeString j s =
     (if s = [] then []
      else (let (r, w) = DecodeRuneInString s in (j, r) # rangeString (j + w) (drop w s)))"
  by pat_completeness auto
termination
proof (relation "measure (\<lambda>(j, s). length s)", goal_cases)
  case 1
  then show ?case by simp
next
  case (2 j s x r w)
  then have "w = snd (DecodeRuneInString s)" by (metis snd_conv)
  then have "1 \<le> w" using 2(1) decode_width_pos by blast
  then show ?case using 2(1) by simp
qed

declare rangeString.simps [simp del]

text \<open>\<^verbatim>\<open>fmt.Sprintf("%02X", r)\<close>: upper-case hexadecimal digits, padded with zeros
  to two places.\<close>

definition hexDigitUpper :: "nat \<Rightarrow> char" where
  "hexDigitUpper d = ''0123456789ABCDEF'' ! d"

function hexUpper :: "nat \<Rightarrow> string" where
  "hexUpper n = (if n < 16 then [hexDigitUpper n]
                 else hexUpper (n div 16) @ [hexDigitUpper (n mod 16)])"
  by pat_completeness auto
termination
  by (relation "measure id") auto

declare hexUpper.simps [simp del]

definition fmt02X :: "nat \<Rightarrow> string" where
  "fmt02X n = (let d = hexUpper n in replicate (2 - length d) CHR ''0'' @ d)"

text \<open>The inner loop over the runes of a line: it appends an issue at the first
  control character other than tab (9), carriage return (13) and newline (10), and
  leaves the loop there.\<close>

fun controlScan ::
  "nat \<Rightarrow> string \<Rightarrow> (nat \<times> nat) list \<Rightarrow> ValidationError list \<Rightarrow> ValidationError list" where
  "controlScan i lineStr [] errors = errors"
| "controlScan i lineStr ((j, r) # rest) errors =
     (if r < 32 \<and> r \<noteq> 9 \<and> r \<noteq> 13 \<and> r \<noteq> 10
      then errors @
        [\<lparr>LineNumber = int i + 1, Column = int j + 1, Line = lineStr,
          ErrorType = ''Control character'',
          Message = ''Control character (hex 0x'' @ fmt02X r @ '') found'',
          Content = encodeRune r\<rparr>]
      else controlScan i lineStr rest errors)"

definition controlLine :: line_body where
  "controlLine i lineStr errors = Inr (controlScan i lineStr (rangeString 0 lineStr) errors)"

definition validateControlCharacters ::
  "string \<Rightarrow> 'a ValidationOptions_scheme \<Rightarrow> panic + ValidationError list" where
  "validateControlCharacters content opts =
     (let lines = bytes_Split_nl content
      in lineLoop controlLine (MaxErrors opts) 0 lines [])"

subsection \<open>validateHexColors\<close>

text \<open>The pattern
  \<^verbatim>\<open>#[0-9a-fA-F]{1,2}([^0-9a-fA-F]|$)|#[0-9a-fA-F]{4,5}([^0-9a-fA-F]|$)|#[0-9a-fA-F]{7,}\<close>,
  with its two capture groups.\<close>

definition hexDigitClass :: "bool \<Rightarrow> pattern" where
  "hexDigitClass neg =
     PClass neg [(CHR ''0'', CHR ''9''), (CHR ''a'', CHR ''f''), (CHR ''A'', CHR ''F'')]"

definition reInvalidHex :: pattern where
  "reInvalidHex =
     PAlts [PSeq [PLit CHR ''#'', PRepeat (hexDigitClass False) 1 (Some 2),
                  PCapture 1 (PAlt (hexDigitClass True) PEndText)],
            PSeq [PLit CHR ''#'', PRepeat (hexDigitClass False) 4 (Some 5),
                  PCapture 2 (PAlt (hexDigitClass True) PEndText)],
            PSeq [PLit CHR ''#'', PRepeat (hexDigitClass False) 7 None]]"

text \<open>The loop over the matches of a line. \<^verbatim>\<open>match[2]\<close> is the start of the first
  capture group, \<^verbatim>\<open>-1\<close> when the group took no part in the match.\<close>

fun hexMatches ::
  "nat \<Rightarrow> string \<Rightarrow> (nat \<times> nat \<times> caps) list \<Rightarrow> ValidationError list
     \<Rightarrow> panic + ValidationError list" where
  "hexMatches i lineStr [] errors = Inr errors"
| "hexMatches i lineStr ((m0, m1, c) # rest) errors =
     (let hexStart = m0;
          hexEnd = (case map_of c 1 of Some (g0, g1) \<Rightarrow> g0 | None \<Rightarrow> m1)
      in and_then (slice lineStr hexStart hexEnd) (\<lambda>hexCode.
           hexMatches i lineStr rest (errors @
             [\<lparr>LineNumber = int i + 1, Column = int hexStart + 1, Line = lineStr,
               ErrorType = ''Invalid hex color'',
               Message = ''Invalid hex color code: '' @ hexCode
                           @ '' (should be #RGB, #RRGGBB, or #RRGGBBAA)'',
               Content = hexCode\<rparr>])))"

definition hexLine :: "regex \<Rightarrow> line_body" where
  "hexLine re i lineStr errors =
     hexMatches i lineStr (FindAllStringSubmatchIndex re lineStr) errors"

definition validateHexColors ::
  "string \<Rightarrow> 'a ValidationOptions_scheme \<Rightarrow> panic + ValidationError list" where
  "validateHexColors content opts =
     (let lines = bytes_Split_nl content in
      and_then (MustCompile reInvalidHex) (\<lambda>reInvalidHex.
        lineLoop (hexLine reInvalidHex) (MaxErrors opts) 0 lines []))"

subsection \<open>validateSVG\<close>

text \<open>The patterns
  \<^verbatim>\<open><(path|rect|circle|ellipse|line|polyline|polygon|image|use)[^>]*[^/]>\<close> and
  \<^verbatim>\<open><svg[^>]*(width|height|viewBox)=([^"'][^ >]*)\<close>.\<close>

definition voidTagNames :: "string list" where
  "voidTagNames = [''path'', ''rect'', ''circle'', ''ellipse'', ''line'', ''polyline'',
                   ''polygon'', ''image'', ''use'']"

definition reSVGSelfClosing :: pattern where
  "reSVGSelfClosing =
     PSeq [PLit CHR ''<'',
           PCapture 1 (PAlts (map PStr voidTagNames)),
           PStar (PClass True [(CHR ''>'', CHR ''>'')]),
           PClass True [(CHR ''/'', CHR ''/'')],
           PLit CHR ''>'']"

definition reSVGUnquotedAttr :: pattern where
  "reSVGUnquotedAttr =
     PSeq [PStr ''<svg'',
           PStar (PClass True [(CHR ''>'', CHR ''>'')]),
           PCapture 1 (PAlts [PStr ''width'', PStr ''height'', PStr ''viewBox'']),
           PLit CHR ''='',
           PCapture 2 (PCat (PClass True [(CHR 0x22, CHR 0x22), (CHR 0x27, CHR 0x27)])
                            (PStar (PClass True [(CHR '' '', CHR '' ''), (CHR ''>'', CHR ''>'')])))]"

text \<open>
  The loop over the matches of the first pattern. The pattern of the closing tag is
  built from the text of the first group and compiled at each match; the text is one
  of the nine tag names, all letters, so it stands for itself in the pattern.
\<close>

fun svgSelfClosing ::
  "nat \<Rightarrow> string \<Rightarrow> (nat \<times> nat \<times> caps) list \<Rightarrow> ValidationError list
     \<Rightarrow> panic + ValidationError list" where
  "svgSelfClosing i lineStr [] errors = Inr errors"
| "svgSelfClosing i lineStr ((m0, m1, c) # rest) errors =
     (case map_of c 1 of
        None \<Rightarrow> Inl SliceBoundsOutOfRange
      | Some (g0, g1) \<Rightarrow>
          and_then (slice lineStr g0 g1) (\<lambda>tagName.
          and_then (MustCompile (PStr (''</'' @ tagName @ ''>''))) (\<lambda>reClose.
          and_then (slice lineStr m1 (length lineStr)) (\<lambda>after.
            if \<not> MatchString reClose after
            then and_then (slice lineStr m0 m1) (\<lambda>content.
                   svgSelfClosing i lineStr rest (errors @
                     [\<lparr>LineNumber = int i + 1, Column = int m0 + 1, Line = lineStr,
                       ErrorType = ''SVG self-closing tag issue'',
                       Message = ''SVG <'' @ tagName @ ''> tag should be self-closing with />'',
                       Content = content\<rparr>]))
            else svgSelfClosing i lineStr rest errors))))"

fun svgUnquotedAttr ::
  "nat \<Rightarrow> string \<Rightarrow> (nat \<times> nat \<times> caps) list \<Rightarrow> ValidationError list
     \<Rightarrow> panic + ValidationError list" where
  "svgUnquotedAttr i lineStr [] errors = Inr errors"
| "svgUnquotedAttr i lineStr ((m0, m1, c) # rest) errors =
     (case map_of c 1 of
        None \<Rightarrow> Inl SliceBoundsOutOfRange
      | Some (g0, g1) \<Rightarrow>
          and_then (slice lineStr g0 g1) (\<lambda>attrName.
            (case map_of c 2 of
               None \<Rightarrow> Inl SliceBoundsOutOfRange
             | Some (h0, h1) \<Rightarrow>
                 and_then (slice lineStr h0 h1) (\<lambda>attrValue.
                   svgUnquotedAttr i lineStr rest (errors @
                     [\<lparr>LineNumber = int i + 1, Column = int g0 + 1, Line = lineStr,
                       ErrorType = ''SVG unquoted attribute'',
                       Message = ''SVG attribute '' @ attrName @ ''='' @ attrValue
                                   @ '' should use quotes: '' @ attrName @ ''=''
                                   @ [CHR 0x22] @ attrValue @ [CHR 0x22],
                       Content = attrName @ ''='' @ attrValue\<rparr>])))))"

definition svgLine :: "regex \<Rightarrow> regex \<Rightarrow> line_body" where
  "svgLine re1 re2 i lineStr errors =
     and_then (svgSelfClosing i lineStr (FindAllStringSubmatchIndex re1 lineStr) errors)
       (\<lambda>errors. svgUnquotedAttr i lineStr (FindAllStringSubmatchIndex re2 lineStr) errors)"

definition validateSVG ::
  "string \<Rightarrow> 'a ValidationOptions_scheme \<Rightarrow> panic + ValidationError list" where
  "validateSVG content opts =
     (let lines = bytes_Split_nl content in
      and_then (MustCompile reSVGSelfClosing) (\<lambda>reSVGSelfClosing.
      and_then (MustCompile reSVGUnquotedAttr) (\<lambda>reSVGUnquotedAttr.
        lineLoop (svgLine reSVGSelfClosing reSVGUnquotedAttr) (MaxErrors opts) 0 lines [])))"


section \<open>validateXML\<close>

text \<open>
  The pipeline prints progress lines and calls the checkers in a fixed order. The
  model returns, with the result, the trace of what the run does: each line printed
  with \<^verbatim>\<open>fmt.Println\<close> and each checker invoked, in order. A panic of a checker
  ends the run with the trace up to the call.
\<close>

datatype event = Printed string | Invoked string

text \<open>The plain entry point.\<close>

definition validateXML ::
  "decoder \<Rightarrow> string \<Rightarrow> ValidationOptions \<Rightarrow> event list \<times> (panic + ValidationError list)" where
  "validateXML dec content opts =
     (let allErrors = [];
          trace = [Invoked ''validateBasicXML''];
          basicErrors = validateBasicXML dec content;
          allErrors = allErrors @ basicErrors
      in
      if int (length allErrors) \<ge> MaxErrors opts \<and> MaxErrors opts > 0
      then (trace, Inr (take (nat (MaxErrors opts)) allErrors))
      else if length basicErrors = 0 then
        (let trace = trace @
               [Printed ''Basic XML validation passed. Performing additional checks...'',
                Printed ''Checking CDATA sections...'',
                Invoked ''validateCDATASections'']
         in case validateCDATASections content opts of
              Inl p \<Rightarrow> (trace, Inl p)
            | Inr cdataErrors \<Rightarrow>
         (let allErrors = allErrors @ cdataErrors in
          if int (length allErrors) \<ge> MaxErrors opts \<and> MaxErrors opts > 0
          then (trace, Inr (take (nat (MaxErrors opts)) allErrors))
          else
         (let trace = trace @
                [Printed ''Checking for control characters...'',
                 Invoked ''validateControlCharacters'']
          in case validateControlCharacters content opts of
               Inl p \<Rightarrow> (trace, Inl p)
             | Inr controlErrors \<Rightarrow>
         (let allErrors = allErrors @ controlErrors in
          if int (length allErrors) \<ge> MaxErrors opts \<and> MaxErrors opts > 0
          then (trace, Inr (take (nat (MaxErrors opts)) allErrors))
          else
         (let trace = trace @
                [Printed ''Checking hex color codes...'',
                 Invoked ''validateHexColors'']
          in case validateHexColors content opts of
               Inl p \<Rightarrow> (trace, Inl p)
             | Inr hexErrors \<Rightarrow>
         (let allErrors = allErrors @ hexErrors in
          if int (length allErrors) \<ge> MaxErrors opts \<and> MaxErrors opts > 0
          then (trace, Inr (take (nat (MaxErrors opts)) allErrors))
          else
         (let trace = trace @
                [Printed ''Checking SVG syntax...'',
                 Invoked ''validateSVG'']
          in case validateSVG content opts of
               Inl p \<Rightarrow> (trace, Inl p)
             | Inr svgErrors \<Rightarrow>
         (let allErrors = allErrors @ svgErrors in
          if MaxErrors opts > 0 \<and> int (length allErrors) > MaxErrors opts
          then (trace, Inr (take (nat (MaxErrors opts)) allErrors))
          else (trace, Inr allErrors)))))))))
      else if MaxErrors opts > 0 \<and> int (length allErrors) > MaxErrors opts
      then (trace, Inr (take (nat (MaxErrors opts)) allErrors))
      else (trace, Inr allErrors))"

text \<open>
  The coloured entry point (the second \<^verbatim>\<open>main\<close> package of the repository). Its
  checkers are, byte for byte, those of the plain entry point, and its
  \<^verbatim>\<open>validateXML\<close> differs in the printed lines, which pass through the colour
  functions of the library \<^verbatim>\<open>fatih/color\<close>. The library enters as the parameter
  \<open>sprint\<close>: the \<^verbatim>\<open>SprintFunc\<close> of an attribute.
\<close>

datatype color_attr = FgGreen | FgRed | FgYellow | FgCyan | FgBlue

type_synonym sprint_func = "color_attr \<Rightarrow> string \<Rightarrow> string"

definition successColor :: "sprint_func \<Rightarrow> string \<Rightarrow> string" where
  "successColor sprint = sprint FgGreen"

definition infoColor :: "sprint_func \<Rightarrow> string \<Rightarrow> string" where
  "infoColor sprint = sprint FgBlue"

definition validateXML_color ::
  "sprint_func \<Rightarrow> decoder \<Rightarrow> string \<Rightarrow> ColorValidationOptions
     \<Rightarrow> event list \<times> (panic + ValidationError list)" where
  "validateXML_color sprint dec content opts =
     (let allErrors = [];
          trace = [Invoked ''validateBasicXML''];
          basicErrors = validateBasicXML dec content;
          allErrors = allErrors @ basicErrors
      in
      if int (length allErrors) \<ge> MaxErrors opts \<and> MaxErrors opts > 0
      then (trace, Inr (take (nat (MaxErrors opts)) allErrors))
      else if length basicErrors = 0 then
        (let trace = trace @
               [Printed (successColor sprint
                  ''Basic XML validation passed. Performing additional checks...''),
                Printed (infoColor sprint ''Checking CDATA sections...''),
                Invoked ''validateCDATASections'']
         in case validateCDATASections content opts of
              Inl p \<Rightarrow> (trace, Inl p)
            | Inr cdataErrors \<Rightarrow>
         (let allErrors = allErrors @ cdataErrors in
          if int (length allErrors) \<ge> MaxErrors opts \<and> MaxErrors opts > 0
          then (trace, Inr (take (nat (MaxErrors opts)) allErrors))
          else
         (let trace = trace @
                [Printed (infoColor sprint ''Checking for control characters...''),
                 Invoked ''validateControlCharacters'']
          in case validateControlCharacters content opts of
               Inl p \<Rightarrow> (trace, Inl p)
             | Inr controlErrors \<Rightarrow>
         (let allErrors = allErrors @ controlErrors in
          if int (length allErrors) \<ge> MaxErrors opts \<and> MaxErrors opts > 0
          then (trace, Inr (take (nat (MaxErrors opts)) allErrors))
          else
         (let trace = trace @
                [Printed (infoColor sprint ''Checking hex color codes...''),
                 Invoked ''validateHexColors'']
          in case validateHexColors content opts of
               Inl p \<Rightarrow> (trace, Inl p)
             | Inr hexErrors \<Rightarrow>
         (let allErrors = allErrors @ hexErrors in
          if int (length allErrors) \<ge> MaxErrors opts \<and> MaxErrors opts > 0
          then (trace, Inr (take (nat (MaxErrors opts)) allErrors))
          else
         (let trace = trace @
                [Printed (infoColor sprint ''Checking SVG syntax...''),
                 Invoked ''validateSVG'']
          in case validateSVG content opts of
               Inl p \<Rightarrow> (trace, Inl p)
             | Inr svgErrors \<Rightarrow>
         (let allErrors = allErrors @ svgErrors in
          if MaxErrors opts > 0 \<and> int (length allErrors) > MaxErrors opts
          then (trace, Inr (take (nat (MaxErrors opts)) allErrors))
          else (trace, Inr allErrors)))))))))
      else if MaxErrors opts > 0 \<and> int (length allErrors) > MaxErrors opts
      then (trace, Inr (take (nat (MaxErrors opts)) allErrors))
      else (trace, Inr allErrors))"

section \<open>Notions used in the statements\<close>

text \<open>
  A control byte is a byte that the inner loop of \<open>validateControlCharacters\<close> reports:
  below 32 and not tab, carriage return or newline. \<open>firstControl\<close> is the index of the
  first control byte of a string (its length when there is none), \<open>controlIssue\<close> the
  issue that the loop builds, and \<open>lineIssue\<close> the issues of one line in terms of its
  bytes.
\<close>

definition controlByte :: "char \<Rightarrow> bool" where
  "controlByte c = (let r = of_char c :: nat in r < 32 \<and> r \<noteq> 9 \<and> r \<noteq> 13 \<and> r \<noteq> 10)"

definition controlIssue :: "nat \<Rightarrow> string \<Rightarrow> nat \<Rightarrow> nat \<Rightarrow> ValidationError" where
  "controlIssue i lineStr j r =
     \<lparr>LineNumber = int i + 1, Column = int j + 1, Line = lineStr,
      ErrorType = ''Control character'',
      Message = ''Control character (hex 0x'' @ fmt02X r @ '') found'',
      Content = encodeRune r\<rparr>"

definition firstControl :: "string \<Rightarrow> nat" where
  "firstControl s = length (takeWhile (\<lambda>c. \<not> controlByte c) s)"

definition lineIssue :: "nat \<Rightarrow> string \<Rightarrow> nat \<Rightarrow> string \<Rightarrow> ValidationError list" where
  "lineIssue i lineStr j s =
     (if firstControl s < length s
      then [controlIssue i lineStr (j + firstControl s) (of_char (s ! firstControl s))]
      else [])"

text \<open>A match lies within its line, and its capture groups within the match.\<close>

definition wellMatch :: "string \<Rightarrow> nat \<times> nat \<times> caps \<Rightarrow> bool" where
  "wellMatch l m =
     (case m of (m0, m1, c) \<Rightarrow>
        m0 \<le> m1 \<and> m1 \<le> length l \<and>
        (\<forall>k a b. (k, a, b) \<in> set c \<longrightarrow> m0 \<le> a \<and> a \<le> b \<and> b \<le> m1))"

section \<open>Example decoders\<close>

text \<open>Two token sequences that the tokenizer can produce, used in the examples below:
  that of a well-formed document with one element, and that of a document which ends
  inside its first element.\<close>

definition wellFormedTokens :: decoder where
  "wellFormedTokens content = [Token, Token, Token]"

definition syntaxErrorTokens :: decoder where
  "syntaxErrorTokens content =
     [Token, SyntaxError 1 ''XML syntax error on line 1: unexpected EOF'']"

section \<open>Auxiliary facts\<close>

lemma MustCompile_SpecialChar: "\<exists>r. MustCompile reCDATAWithSpecialChar = Inr r"
  by (simp add: MustCompile_def reCDATAWithSpecialChar_def)

lemma MustCompile_Exclamation: "\<exists>r. MustCompile reCDATAWithExclamation = Inr r"
  by (simp add: MustCompile_def reCDATAWithExclamation_def)

lemma MustCompile_Unclosed:
  "MustCompile reUnclosedCDATA =
     Inl (RegexpPanic ''error parsing regexp: invalid or unsupported Perl syntax: `(?!`'')"
  by (simp add: MustCompile_def reUnclosedCDATA_def)

lemma validateCDATASections_panic:
  "validateCDATASections content opts =
     Inl (RegexpPanic ''error parsing regexp: invalid or unsupported Perl syntax: `(?!`'')"
  using MustCompile_SpecialChar MustCompile_Exclamation
  by (auto simp: validateCDATASections_def and_then_def MustCompile_Unclosed)

lemma lineLoop_single: "lineLoop body m i [l] errors = body i l errors"
  by (cases "body i l errors") auto

lemma tokenLoop_length: "length (tokenLoop content rs) \<le> 1"
proof (induction rs)
  case Nil
  then show ?case by simp
next
  case (Cons r rs)
  then show ?case by (cases r) (auto simp: Let_def split: prod.splits)
qed

lemma validateBasicXML_length: "length (validateBasicXML dec content) \<le> 1"
  using tokenLoop_length [of content "dec content"] by (simp add: validateBasicXML_def)

lemma cdata_opts: "validateCDATASections content \<lparr>MaxErrors = n, Debug = d, Color = c\<rparr>
   = validateCDATASections content \<lparr>MaxErrors = n, Debug = d\<rparr>"
  by (simp add: validateCDATASections_def)
lemma control_opts: "validateControlCharacters content \<lparr>MaxErrors = n, Debug = d, Color = c\<rparr>
   = validateControlCharacters content \<lparr>MaxErrors = n, Debug = d\<rparr>"
  by (simp add: validateControlCharacters_def)
lemma hex_opts: "validateHexColors content \<lparr>MaxErrors = n, Debug = d, Color = c\<rparr>
   = validateHexColors content \<lparr>MaxErrors = n, Debug = d\<rparr>"
  by (simp add: validateHexColors_def)
lemma svg_opts: "validateSVG content \<lparr>MaxErrors = n, Debug = d, Color = c\<rparr>
   = validateSVG content \<lparr>MaxErrors = n, Debug = d\<rparr>"
  by (simp add: validateSVG_def)

lemma hex_one_line:
  "bytes_Split_nl content = [l] \<Longrightarrow>
     validateHexColors content opts =
       and_then (MustCompile reInvalidHex) (\<lambda>re. hexLine re 0 l [])"
  by (simp add: validateHexColors_def lineLoop_single del: lineLoop.simps)

lemma mod_window:
  assumes "a * m \<le> (s::nat)" and "s < a * m + m"
  shows "s mod m = s - a * m"
proof -
  have "s = (s - a * m) + a * m" using assms by simp
  then have "s mod m = ((s - a * m) + a * m) mod m" by simp
  also have "\<dots> = (s - a * m) mod m" by (simp only: mod_mult_self1 mult.commute)
  also have "\<dots> = s - a * m" using assms by simp
  finally show ?thesis .
qed

lemma rune2: "194 \<le> (s0::nat) \<Longrightarrow> s0 \<le> 223 \<Longrightarrow> 128 \<le> s0 mod 32 * 64 + x"
  using mod_window [of 6 32 s0] by simp

lemma rune3a: "160 \<le> (s1::nat) \<Longrightarrow> s1 \<le> 191 \<Longrightarrow> 128 \<le> y + s1 mod 64 * 64 + x"
  using mod_window [of 2 64 s1] by simp

lemma rune3a': "160 \<le> (s1::nat) \<Longrightarrow> s1 \<le> 191 \<Longrightarrow> 128 \<le> s1 mod 64 * 64 + x"
  using mod_window [of 2 64 s1] by simp

lemma rune4a': "144 \<le> (s1::nat) \<Longrightarrow> s1 \<le> 191 \<Longrightarrow> 128 \<le> s1 mod 64 * 4096 + y + x"
  using mod_window [of 2 64 s1] by simp

lemma rune3b: "225 \<le> (s0::nat) \<Longrightarrow> s0 \<le> 239 \<Longrightarrow> 128 \<le> s0 mod 16 * 4096 + y + x"
  using mod_window [of 14 16 s0] by simp

lemma rune4a: "144 \<le> (s1::nat) \<Longrightarrow> s1 \<le> 191 \<Longrightarrow> 128 \<le> z + s1 mod 64 * 4096 + y + x"
  using mod_window [of 2 64 s1] by simp

lemma rune4b: "241 \<le> (s0::nat) \<Longrightarrow> s0 \<le> 244 \<Longrightarrow> 128 \<le> s0 mod 8 * 262144 + z + y + x"
  using mod_window [of 30 8 s0] by simp


lemma utf8_first_cases:
  assumes "utf8_first b = Some (sz, lo, hi)"
  shows "(sz = 2 \<and> lo = 0x80 \<and> hi = 0xBF \<and> 0xC2 \<le> b \<and> b \<le> 0xDF)
       \<or> (sz = 3 \<and> lo = 0xA0 \<and> hi = 0xBF \<and> b = 0xE0)
       \<or> (sz = 3 \<and> 0x80 \<le> lo \<and> hi \<le> 0xBF \<and> 0xE1 \<le> b \<and> b \<le> 0xEF)
       \<or> (sz = 4 \<and> lo = 0x90 \<and> hi = 0xBF \<and> b = 0xF0)
       \<or> (sz = 4 \<and> 0x80 \<le> lo \<and> hi \<le> 0xBF \<and> 0xF1 \<le> b \<and> b \<le> 0xF4)"
  using assms by (auto simp: utf8_first_def split: if_splits)

lemma decode_rune_ge:
  assumes "\<not> of_char c < (128::nat)"
  shows "128 \<le> fst (DecodeRuneInString (c # cs))"
proof (cases "utf8_first (of_char c)")
  case None
  then show ?thesis using assms by (simp add: RuneError_def)
next
  case (Some t)
  obtain sz lo hi where t: "t = (sz, lo, hi)" by (cases t)
  from utf8_first_cases [OF Some [unfolded t]] show ?thesis
    using assms Some t
    by (elim disjE conjE)
       (auto simp: Let_def RuneError_def rune2 rune3a rune3a' rune3b rune4a rune4a' rune4b)
qed

lemma decode_bytes_ge:
  assumes "\<not> of_char c < (128::nat)" and "k < snd (DecodeRuneInString (c # cs))"
  shows "128 \<le> (of_char ((c # cs) ! k) :: nat)"
proof (cases "utf8_first (of_char c)")
  case None
  then show ?thesis using assms by simp
next
  case (Some t)
  obtain sz lo hi where t: "t = (sz, lo, hi)" by (cases t)
  have k: "k < 4 \<Longrightarrow> k = 0 \<or> k = 1 \<or> k = 2 \<or> k = 3" by arith
  from utf8_first_cases [OF Some [unfolded t]] show ?thesis
    using assms Some t
    by (elim disjE conjE)
       (auto simp: Let_def continuation_def nth_Cons less_Suc_eq numeral_2_eq_2
          numeral_3_eq_3 split: if_splits nat.splits)
qed

lemma firstControl_Nil: "firstControl [] = 0"
  by (simp add: firstControl_def)

lemma firstControl_skip:
  assumes "w \<le> length s" and "\<forall>k<w. \<not> controlByte (s ! k)"
  shows "firstControl s = w + firstControl (drop w s)"
proof -
  have a: "\<And>c. c \<in> set (take w s) \<Longrightarrow> \<not> controlByte c"
    using assms by (auto simp: in_set_conv_nth)
  have "takeWhile (\<lambda>c. \<not> controlByte c) (take w s @ drop w s)
               = take w s @ takeWhile (\<lambda>c. \<not> controlByte c) (drop w s)"
    by (rule takeWhile_append2) (rule a)
  then have "takeWhile (\<lambda>c. \<not> controlByte c) s
               = take w s @ takeWhile (\<lambda>c. \<not> controlByte c) (drop w s)"
    by simp
  then show ?thesis using assms(1) by (simp add: firstControl_def)
qed

lemma controlScan_skip:
  "\<not> (r < 32 \<and> r \<noteq> 9 \<and> r \<noteq> 13 \<and> r \<noteq> 10) \<Longrightarrow>
     controlScan i l ((j, r) # rest) errors = controlScan i l rest errors"
  by auto

lemma controlScan_hit:
  "r < 32 \<and> r \<noteq> 9 \<and> r \<noteq> 13 \<and> r \<noteq> 10 \<Longrightarrow>
     controlScan i l ((j, r) # rest) errors = errors @ [controlIssue i l j r]"
  by (simp add: controlIssue_def)

lemma controlScan_rangeString:
  "controlScan i lineStr (rangeString j s) errors = errors @ lineIssue i lineStr j s"
proof (induction j s arbitrary: errors rule: rangeString.induct)
  case (1 j s)
  show ?case
  proof (cases s)
    case Nil
    then show ?thesis
      by (simp add: rangeString.simps [of j "[]"] lineIssue_def firstControl_Nil)
  next
    case (Cons c cs)
    obtain r w where d: "DecodeRuneInString s = (r, w)" by fastforce
    have ne: "s \<noteq> []" using Cons by simp
    have rs: "rangeString j s = (j, r) # rangeString (j + w) (drop w s)"
      using ne d by (subst rangeString.simps) simp
    have IH: "\<And>errors. controlScan i lineStr (rangeString (j + w) (drop w s)) errors
                 = errors @ lineIssue i lineStr (j + w) (drop w s)"
      using 1 [OF ne d [symmetric] refl] by simp
    show ?thesis
    proof (cases "of_char c < (128::nat)")
      case True
      with d Cons have rw: "r = of_char c" "w = 1" by auto
      show ?thesis
      proof (cases "controlByte c")
        case True
        then have "firstControl s = 0" using Cons by (simp add: firstControl_def)
        moreover have "r < 32 \<and> r \<noteq> 9 \<and> r \<noteq> 13 \<and> r \<noteq> 10"
          using True rw by (simp add: controlByte_def Let_def)
        ultimately show ?thesis using rs rw Cons
          by (simp add: lineIssue_def controlScan_hit del: controlScan.simps)
      next
        case False
        then have "firstControl s = 1 + firstControl (drop 1 s)"
          using Cons by (simp add: firstControl_def)
        moreover have "\<not> (r < 32 \<and> r \<noteq> 9 \<and> r \<noteq> 13 \<and> r \<noteq> 10)"
          using False rw by (simp add: controlByte_def Let_def)
        ultimately show ?thesis using rs rw Cons IH
          by (simp add: lineIssue_def controlScan_skip del: controlScan.simps)
      qed
    next
      case False
      have r128: "128 \<le> r" using decode_rune_ge [OF False, of cs] d Cons by simp
      have wle: "w \<le> length s" using decode_width_le [of s] d by simp
      have "\<forall>k<w. \<not> controlByte (s ! k)"
      proof (intro allI impI)
        fix k assume "k < w"
        then have "128 \<le> (of_char (s ! k) :: nat)"
          using decode_bytes_ge [OF False, of k cs] d Cons by simp
        then show "\<not> controlByte (s ! k)" by (simp add: controlByte_def Let_def)
      qed
      from firstControl_skip [OF wle this]
      have fc: "firstControl s = w + firstControl (drop w s)" .
      have "lineIssue i lineStr j s = lineIssue i lineStr (j + w) (drop w s)"
        using fc wle by (auto simp: lineIssue_def add.assoc)
      moreover have "\<not> (r < 32 \<and> r \<noteq> 9 \<and> r \<noteq> 13 \<and> r \<noteq> 10)"
        using r128 by simp
      ultimately show ?thesis using rs IH
        by (simp add: controlScan_skip del: controlScan.simps)
    qed
  qed
qed

lemma upt_Suc_shift: "[0..<Suc n] = 0 # map Suc [0..<n]"
  by (simp add: upt_conv_Cons map_Suc_upt del: upt_Suc)

lemma lineLoop_append:
  assumes body: "\<And>i line errors. body i line errors = Inr (errors @ f i line)"
  shows "\<exists>n\<le>length lines.
           lineLoop body m i0 lines errors =
             Inr (errors @ concat (map (\<lambda>k. f (i0 + k) (lines ! k)) [0..<n]))"
proof (induction lines arbitrary: i0 errors)
  case Nil
  then show ?case by simp
next
  case (Cons line lines)
  show ?case
  proof (cases "m > 0 \<and> int (length (errors @ f i0 line)) \<ge> m")
    case True
    then have "lineLoop body m i0 (line # lines) errors =
        Inr (errors @ concat (map (\<lambda>k. f (i0 + k) ((line # lines) ! k)) [0..<1]))"
      by (simp add: body)
    then show ?thesis by (intro exI [of _ 1]) simp
  next
    case False
    from Cons [of "Suc i0" "errors @ f i0 line"] obtain n where n: "n \<le> length lines"
      and r: "lineLoop body m (Suc i0) lines (errors @ f i0 line) =
          Inr ((errors @ f i0 line) @ concat (map (\<lambda>k. f (Suc i0 + k) (lines ! k)) [0..<n]))"
      by blast
    have "lineLoop body m i0 (line # lines) errors =
        Inr (errors @ concat (map (\<lambda>k. f (i0 + k) ((line # lines) ! k)) [0..<Suc n]))"
      using False r by (auto simp add: body upt_Suc_shift comp_def simp del: upt_Suc)
    then show ?thesis using n by (intro exI [of _ "Suc n"]) simp
  qed
qed

lemma controlLine_append:
  "controlLine i lineStr errors = Inr (errors @ lineIssue i lineStr 0 lineStr)"
  by (simp add: controlLine_def controlScan_rangeString)

lemma filter_concat_lines:
  assumes "\<And>k e. e \<in> set (F k) \<Longrightarrow> LineNumber e = int k + 1"
  shows "filter (\<lambda>e. LineNumber e = int i + 1) (concat (map F [0..<n]))
           = (if i < n then F i else [])"
proof (induction n)
  case 0
  then show ?case by simp
next
  case (Suc n)
  have "filter (\<lambda>e. LineNumber e = int i + 1) (F n) = (if i = n then F n else [])"
    using assms [of _ n] by (auto simp: filter_empty_conv filter_id_conv)
  then show ?case using Suc by auto
qed

lemma firstControl_props:
  assumes "firstControl s < length s"
  shows "controlByte (s ! firstControl s) \<and> (\<forall>j'<firstControl s. \<not> controlByte (s ! j'))"
proof -
  have "\<not> \<not> controlByte (s ! firstControl s)"
    using assms nth_length_takeWhile [of "\<lambda>c. \<not> controlByte c" s]
    by (simp add: firstControl_def)
  moreover have "\<forall>j'<firstControl s. \<not> controlByte (s ! j')"
  proof (intro allI impI)
    fix j' assume j': "j' < firstControl s"
    then have "takeWhile (\<lambda>c. \<not> controlByte c) s ! j' = s ! j'"
      by (simp add: firstControl_def takeWhile_nth)
    moreover have "takeWhile (\<lambda>c. \<not> controlByte c) s ! j'
                     \<in> set (takeWhile (\<lambda>c. \<not> controlByte c) s)"
      using j' by (simp add: firstControl_def)
    ultimately show "\<not> controlByte (s ! j')" using set_takeWhileD by fastforce
  qed
  ultimately show ?thesis by simp
qed

lemma encodeRune_controlByte: "controlByte c \<Longrightarrow> encodeRune (of_char c) = [c]"
  by (simp add: controlByte_def encodeRune_def Let_def)


lemma allMatches_match:
  "(m0, m1, c) \<in> set (allMatches re pos s prev) \<Longrightarrow>
     pos \<le> m0 \<and> ms re (m0, drop (m0 - pos) s, []) \<noteq> []"
proof (induction re pos s prev rule: allMatches.induct)
  case (1 re pos s prev)
  note am = 1(3) [unfolded allMatches.simps [of re pos s prev]]
  show ?case
  proof (cases "findFirst re pos s")
    case None
    with am show ?thesis by simp
  next
    case (Some t)
    obtain b e c' where t: "t = (b, e, c')" by (cases t)
    note ff = Some [unfolded t]
    from findFirst_bounds [OF ff] have bnd: "pos \<le> b" "b \<le> e" "e \<le> pos + length s"
      by simp_all
    from findFirst_match [OF ff] have here: "ms re (b, drop (b - pos) s, []) \<noteq> []"
      by auto
    show ?thesis
    proof (cases "e = pos")
      case True
      let ?w = "snd (DecodeRuneInString s)"
      from am ff True consider "(m0, m1, c) = (b, e, c')"
        | "s \<noteq> []" "(m0, m1, c) \<in> set (allMatches re (pos + ?w) (drop ?w s) (int e))"
        by (auto simp: Let_def split: if_splits)
      then show ?thesis
      proof cases
        case 1
        then show ?thesis using bnd here by simp
      next
        case 2
        from 1(1) [OF Some t [symmetric] refl True refl refl 2(1) 2(2)]
        have ih: "pos + ?w \<le> m0 \<and>
                  ms re (m0, drop (m0 - (pos + ?w)) (drop ?w s), []) \<noteq> []" .
        then have le: "pos + ?w \<le> m0" by blast
        then have eq: "drop (m0 - (pos + ?w)) (drop ?w s) = drop (m0 - pos) s" by simp
        from ih [unfolded eq] le show ?thesis by simp
      qed
    next
      case False
      from am ff False consider "(m0, m1, c) = (b, e, c')"
        | "(m0, m1, c) \<in> set (allMatches re e (drop (e - pos) s) (int e))"
        by auto
      then show ?thesis
      proof cases
        case 1
        then show ?thesis using bnd here by simp
      next
        case 2
        from 1(2) [OF Some t [symmetric] refl False 2]
        have ih: "e \<le> m0 \<and> ms re (m0, drop (m0 - e) (drop (e - pos) s), []) \<noteq> []" .
        then have le: "e \<le> m0" by blast
        with bnd have eq: "drop (m0 - e) (drop (e - pos) s) = drop (m0 - pos) s" by simp
        from ih [unfolded eq] le bnd show ?thesis by simp
      qed
    qed
  qed
qed

lemma lineLoop_invariant:
  assumes body: "\<And>i line errors res. body i line errors = Inr res \<Longrightarrow>
                   \<exists>new. res = errors @ new \<and> (\<forall>e\<in>set new. Q i line e)"
  shows "lineLoop body m i0 lines errors = Inr res \<Longrightarrow>
           \<exists>new. res = errors @ new \<and>
                 (\<forall>e\<in>set new. \<exists>k<length lines. Q (i0 + k) (lines ! k) e)"
proof (induction lines arbitrary: i0 errors)
  case Nil
  then show ?case by simp
next
  case (Cons line lines)
  from Cons.prems obtain errors' where b: "body i0 line errors = Inr errors'"
    by (auto split: sum.splits)
  from body [OF b] obtain new1 where n1: "errors' = errors @ new1"
    and q1: "\<forall>e\<in>set new1. Q i0 line e" by blast
  show ?case
  proof (cases "m > 0 \<and> int (length errors') \<ge> m")
    case True
    with Cons.prems b have "res = errors'" by simp
    then show ?thesis using n1 q1 by (intro exI [of _ new1]) force
  next
    case False
    with Cons.prems b have "lineLoop body m (Suc i0) lines errors' = Inr res" by auto
    from Cons.IH [OF this] obtain new2 where n2: "res = errors' @ new2"
      and q2: "\<forall>e\<in>set new2. \<exists>k<length lines. Q (Suc i0 + k) (lines ! k) e" by blast
    have "\<forall>e\<in>set (new1 @ new2). \<exists>k<length (line # lines). Q (i0 + k) ((line # lines) ! k) e"
    proof
      fix e assume "e \<in> set (new1 @ new2)"
      then consider "e \<in> set new1" | "e \<in> set new2" by auto
      then show "\<exists>k<length (line # lines). Q (i0 + k) ((line # lines) ! k) e"
      proof cases
        case 1
        with q1 show ?thesis by (intro exI [of _ 0]) simp
      next
        case 2
        with q2 obtain k where "k < length lines" "Q (Suc i0 + k) (lines ! k) e" by blast
        then show ?thesis by (intro exI [of _ "Suc k"]) simp
      qed
    qed
    then show ?thesis using n1 n2 by (intro exI [of _ "new1 @ new2"]) simp
  qed
qed

lemma and_then_Inr_iff: "and_then m f = Inr y \<longleftrightarrow> (\<exists>x. m = Inr x \<and> f x = Inr y)"
  by (cases m) (auto simp: and_then_def)

lemma svgSelfClosing_step:
  assumes "svgSelfClosing i l ((m0, m1, c) # rest) errors = Inr res"
  shows "svgSelfClosing i l rest errors = Inr res \<or>
     (\<exists>iss. LineNumber iss = int i + 1 \<and> Column iss = int m0 + 1 \<and>
            ErrorType iss = ''SVG self-closing tag issue'' \<and>
            svgSelfClosing i l rest (errors @ [iss]) = Inr res)"
proof -
  from assms obtain g0 g1 where g: "map_of c 1 = Some (g0, g1)"
    by (cases "map_of c 1") auto
  from assms g obtain tagName where tn: "slice l g0 g1 = Inr tagName"
    by (cases "slice l g0 g1") (auto simp: and_then_def)
  from assms g tn obtain reClose
    where rc: "MustCompile (PStr (''</'' @ tagName @ ''>'')) = Inr reClose"
    by (cases "MustCompile (PStr (''</'' @ tagName @ ''>''))") (auto simp: and_then_def)
  from assms g tn rc obtain after where af: "slice l m1 (length l) = Inr after"
    by (cases "slice l m1 (length l)") (auto simp: and_then_def)
  show ?thesis
  proof (cases "MatchString reClose after")
    case True
    with assms g tn rc af have "svgSelfClosing i l rest errors = Inr res"
      by (simp add: and_then_def)
    then show ?thesis by simp
  next
    case False
    with assms g tn rc af obtain content where ct: "slice l m0 m1 = Inr content"
      by (cases "slice l m0 m1") (auto simp: and_then_def)
    let ?iss = "\<lparr>LineNumber = int i + 1, Column = int m0 + 1, Line = l,
                 ErrorType = ''SVG self-closing tag issue'',
                 Message = ''SVG <'' @ tagName @ ''> tag should be self-closing with />'',
                 Content = content\<rparr>"
    from False assms g tn rc af ct
    have "svgSelfClosing i l rest (errors @ [?iss]) = Inr res"
      by (simp add: and_then_def)
    then have "\<exists>iss. LineNumber iss = int i + 1 \<and> Column iss = int m0 + 1 \<and>
            ErrorType iss = ''SVG self-closing tag issue'' \<and>
            svgSelfClosing i l rest (errors @ [iss]) = Inr res"
      by (intro exI [of _ ?iss]) simp
    then show ?thesis by simp
  qed
qed

lemma svgSelfClosing_issues:
  "svgSelfClosing i l matches errors = Inr res \<Longrightarrow>
     \<exists>new. res = errors @ new \<and>
       (\<forall>e\<in>set new. LineNumber e = int i + 1 \<and>
          ErrorType e = ''SVG self-closing tag issue'' \<and>
          (\<exists>m\<in>set matches. Column e = int (fst m) + 1))"
proof (induction matches arbitrary: errors res)
  case Nil
  then show ?case by simp
next
  case (Cons m rest)
  obtain m0 m1 c where m: "m = (m0, m1, c)" by (cases m)
  from svgSelfClosing_step [OF Cons.prems [unfolded m]]
  consider "svgSelfClosing i l rest errors = Inr res"
    | iss where "LineNumber iss = int i + 1" "Column iss = int m0 + 1"
        "ErrorType iss = ''SVG self-closing tag issue''"
        "svgSelfClosing i l rest (errors @ [iss]) = Inr res"
    by blast
  then show ?case
  proof cases
    case 1
    from Cons.IH [OF 1] show ?thesis by auto
  next
    case 2
    from Cons.IH [OF 2(4)] obtain new where "res = (errors @ [iss]) @ new"
      and "\<forall>e\<in>set new. LineNumber e = int i + 1 \<and>
             ErrorType e = ''SVG self-closing tag issue'' \<and>
             (\<exists>m\<in>set rest. Column e = int (fst m) + 1)"
      by blast
    then show ?thesis using 2(1,2,3) m
      by (intro exI [of _ "iss # new"]) auto
  qed
qed

lemma svgUnquotedAttr_step:
  assumes "svgUnquotedAttr i l ((m0, m1, c) # rest) errors = Inr res"
  shows "\<exists>iss. LineNumber iss = int i + 1 \<and> ErrorType iss = ''SVG unquoted attribute'' \<and>
            svgUnquotedAttr i l rest (errors @ [iss]) = Inr res"
proof -
  from assms obtain g0 g1 where g: "map_of c 1 = Some (g0, g1)"
    by (cases "map_of c 1") auto
  from assms g obtain attrName where an: "slice l g0 g1 = Inr attrName"
    by (cases "slice l g0 g1") (auto simp: and_then_def)
  from assms g an obtain h0 h1 where h: "map_of c 2 = Some (h0, h1)"
    by (cases "map_of c 2") (auto simp: and_then_def)
  from assms g an h obtain attrValue where av: "slice l h0 h1 = Inr attrValue"
    by (cases "slice l h0 h1") (auto simp: and_then_def)
  let ?iss = "\<lparr>LineNumber = int i + 1, Column = int g0 + 1, Line = l,
               ErrorType = ''SVG unquoted attribute'',
               Message = ''SVG attribute '' @ attrName @ ''='' @ attrValue
                           @ '' should use quotes: '' @ attrName @ ''=''
                           @ [CHR 0x22] @ attrValue @ [CHR 0x22],
               Content = attrName @ ''='' @ attrValue\<rparr>"
  from assms g an h av have "svgUnquotedAttr i l rest (errors @ [?iss]) = Inr res"
    by (simp add: and_then_def)
  then show ?thesis by (intro exI [of _ ?iss]) simp
qed

lemma svgUnquotedAttr_issues:
  "svgUnquotedAttr i l matches errors = Inr res \<Longrightarrow>
     \<exists>new. res = errors @ new \<and>
       (\<forall>e\<in>set new. LineNumber e = int i + 1 \<and> ErrorType e = ''SVG unquoted attribute'')"
proof (induction matches arbitrary: errors res)
  case Nil
  then show ?case by simp
next
  case (Cons m rest)
  obtain m0 m1 c where m: "m = (m0, m1, c)" by (cases m)
  from svgUnquotedAttr_step [OF Cons.prems [unfolded m]]
  obtain iss where iss: "LineNumber iss = int i + 1" "ErrorType iss = ''SVG unquoted attribute''"
        "svgUnquotedAttr i l rest (errors @ [iss]) = Inr res"
    by blast
  from Cons.IH [OF iss(3)] obtain new where "res = (errors @ [iss]) @ new"
      and "\<forall>e\<in>set new. LineNumber e = int i + 1 \<and> ErrorType e = ''SVG unquoted attribute''"
    by blast
  then show ?case using iss(1,2)
    by (intro exI [of _ "iss # new"]) auto
qed

lemma svgLine_issues:
  assumes "svgLine re1 re2 i l errors = Inr res"
  shows "\<exists>new. res = errors @ new \<and>
       (\<forall>e\<in>set new. LineNumber e = int i + 1 \<and>
          (ErrorType e = ''SVG self-closing tag issue'' \<longrightarrow>
             (\<exists>m\<in>set (FindAllStringSubmatchIndex re1 l). Column e = int (fst m) + 1)))"
proof -
  from assms obtain mid
    where a: "svgSelfClosing i l (FindAllStringSubmatchIndex re1 l) errors = Inr mid"
      and b: "svgUnquotedAttr i l (FindAllStringSubmatchIndex re2 l) mid = Inr res"
    by (auto simp: svgLine_def and_then_Inr_iff)
  from svgSelfClosing_issues [OF a] obtain new1 where n1: "mid = errors @ new1"
    and q1: "\<forall>e\<in>set new1. LineNumber e = int i + 1 \<and>
          ErrorType e = ''SVG self-closing tag issue'' \<and>
          (\<exists>m\<in>set (FindAllStringSubmatchIndex re1 l). Column e = int (fst m) + 1)"
    by blast
  from svgUnquotedAttr_issues [OF b] obtain new2 where n2: "res = mid @ new2"
    and q2: "\<forall>e\<in>set new2. LineNumber e = int i + 1 \<and> ErrorType e = ''SVG unquoted attribute''"
    by blast
  show ?thesis using n1 n2 q1 q2
    by (intro exI [of _ "new1 @ new2"]) auto
qed

lemma step1_nil: "step1 ok (p, [], caps) = []"
  by (simp add: step1_def)

lemma step1_ascii:
  "of_char c < (128::nat) \<Longrightarrow>
     step1 ok (p, c # cs, caps) = (if ok (of_char c) then [(p + 1, cs, caps)] else [])"
  by (simp add: step1_def)

lemma step1_lit_ne:
  assumes "(of_char c :: nat) \<noteq> ch" and "ch < 128"
  shows "step1 (\<lambda>r. r = ch) (p, c # cs, caps) = []"
proof (cases "of_char c < (128::nat)")
  case True
  then show ?thesis using assms by (simp add: step1_ascii)
next
  case False
  from decode_rune_ge [OF False, of cs] assms(2)
  have "fst (DecodeRuneInString (c # cs)) \<noteq> ch" by simp
  then show ?thesis
    by (simp add: step1_def case_prod_beta Let_def del: DecodeRuneInString.simps)
qed

lemma of_char_ne_gt: "c \<noteq> CHR ''>'' \<Longrightarrow> (of_char c :: nat) \<noteq> 62"
proof
  assume a: "c \<noteq> CHR ''>''" and b: "(of_char c :: nat) = 62"
  have "(of_char (CHR ''>'') :: nat) = 62" by simp
  with b have "(of_char c :: nat) = of_char (CHR ''>'')" by simp
  then have "c = CHR ''>''" by (simp only: of_char_eq_iff)
  with a show False by simp
qed

lemma selfClosing_compiled:
  "\<exists>re1. MustCompile reSVGSelfClosing = Inr re1"
  by (simp add: MustCompile_def reSVGSelfClosing_def voidTagNames_def)

lemma no_match_after_name:
  assumes re: "MustCompile reSVGSelfClosing = Inr re1"
      and name: "name \<in> set voidTagNames"
      and rest: "rest = [] \<or> hd rest \<noteq> CHR ''>''"
  shows "ms re1 (p, ''<'' @ name @ ''>'' @ rest, []) = []"
proof -
  from re have re1: "re1 = projr (MustCompile reSVGSelfClosing)" by simp
  from name have names: "name = ''path'' \<or> name = ''rect'' \<or> name = ''circle'' \<or>
      name = ''ellipse'' \<or> name = ''line'' \<or> name = ''polyline'' \<or> name = ''polygon'' \<or>
      name = ''image'' \<or> name = ''use''"
    by (simp add: voidTagNames_def)
  show ?thesis
  proof (cases rest)
    case Nil
    from names show ?thesis unfolding re1 Nil
      by (elim disjE)
         (simp_all add: MustCompile_def reSVGSelfClosing_def voidTagNames_def ms_star
            step1_nil step1_ascii in_class_def)
  next
    case (Cons c cs)
    with rest have "c \<noteq> CHR ''>''" by simp
    then have ne: "(of_char c :: nat) \<noteq> 62" by (rule of_char_ne_gt)
    from names ne show ?thesis unfolding re1 Cons
      by (elim disjE)
         (simp_all add: MustCompile_def reSVGSelfClosing_def voidTagNames_def ms_star
            step1_nil step1_ascii step1_lit_ne in_class_def)
  qed
qed


lemma ms_pos_mono: "st' \<in> set (ms r st) \<Longrightarrow> fst st \<le> fst st'"
  using ms_bounds [of st' r st] by (simp add: total_len_def rest_len_def)

lemma ms_Cat_iff:
  "st' \<in> set (ms (RCat r r') st) \<longleftrightarrow> (\<exists>st1\<in>set (ms r st). st' \<in> set (ms r' st1))"
  by simp

lemma step1_caps: "st' \<in> set (step1 ok st) \<Longrightarrow> snd (snd st') = snd (snd st)"
  by (cases st) (auto simp: step1_def Let_def split: if_splits prod.splits)

lemma ms_caps_bounds:
  "st' \<in> set (ms r st) \<Longrightarrow> (k, a, b) \<in> set (snd (snd st')) \<Longrightarrow>
     (k, a, b) \<in> set (snd (snd st)) \<or> (fst st \<le> a \<and> a \<le> b \<and> b \<le> fst st')"
proof (induction r st arbitrary: st' rule: ms.induct)
  case (1 st)
  then show ?case by simp
next
  case (2 ch st)
  then show ?case using step1_caps by fastforce
next
  case (3 neg rs st)
  then show ?case using step1_caps by fastforce
next
  case (4 st)
  then show ?case using step1_caps by fastforce
next
  case (5 st)
  then show ?case by (simp split: if_splits)
next
  case (6 r r' st)
  from 6(3) obtain st1 where s1: "st1 \<in> set (ms r st)" and s2: "st' \<in> set (ms r' st1)"
    by auto
  from 6(2) [OF s1 s2 6(4)]
  consider "(k, a, b) \<in> set (snd (snd st1))" | "fst st1 \<le> a \<and> a \<le> b \<and> b \<le> fst st'"
    by blast
  then show ?case
  proof cases
    case 1
    from 6(1) [OF s1 1] ms_pos_mono [OF s2] show ?thesis by auto
  next
    case 2
    with ms_pos_mono [OF s1] show ?thesis by auto
  qed
next
  case (7 r r' st)
  from 7(3) have "st' \<in> set (ms r st) \<or> st' \<in> set (ms r' st)" by simp
  then show ?case using 7(1) 7(2) 7(4) by blast
next
  case (8 r st)
  from 8(3) consider "st' = st"
    | st1 where "st1 \<in> set (ms r st)" "length (fst (snd st1)) < length (fst (snd st))"
        "st' \<in> set (ms (RStar r) st1)"
    by (subst (asm) ms_star) (auto split: if_splits)
  then show ?case
  proof cases
    case 1
    then show ?thesis using 8(4) by simp
  next
    case 2
    from 8(2) [OF 2(1) 2(2) 2(3) 8(4)]
    consider "(k, a, b) \<in> set (snd (snd st1))" | "fst st1 \<le> a \<and> a \<le> b \<and> b \<le> fst st'"
      by blast
    then show ?thesis
    proof cases
      case 1
      from 8(1) [OF 2(1) 1] ms_pos_mono [OF 2(3)] show ?thesis by auto
    next
      case 2
      with ms_pos_mono [OF \<open>st1 \<in> set (ms r st)\<close>] show ?thesis by auto
    qed
  qed
next
  case (9 r st)
  from 9(2) have "st' \<in> set (ms r st) \<or> st' = st" by auto
  then show ?case using 9(1) 9(3) by blast
next
  case (10 k' r st)
  from 10(2) obtain st1 where s1: "st1 \<in> set (ms r st)"
    and s': "st' = (fst st1, fst (snd st1), (k', fst st, fst st1) # snd (snd st1))"
    by (auto simp: case_prod_beta)
  from 10(3) s' consider "(k, a, b) = (k', fst st, fst st1)" | "(k, a, b) \<in> set (snd (snd st1))"
    by auto
  then show ?case
  proof cases
    case 1
    with ms_pos_mono [OF s1] s' show ?thesis by simp
  next
    case 2
    from 10(1) [OF s1 2] s' show ?thesis by simp
  qed
qed

lemma ms_keys_mono:
  "st' \<in> set (ms r st) \<Longrightarrow> k \<in> fst ` set (snd (snd st)) \<Longrightarrow> k \<in> fst ` set (snd (snd st'))"
proof (induction r st arbitrary: st' rule: ms.induct)
  case (1 st)
  then show ?case by simp
next
  case (2 ch st)
  then show ?case using step1_caps by fastforce
next
  case (3 neg rs st)
  then show ?case using step1_caps by fastforce
next
  case (4 st)
  then show ?case using step1_caps by fastforce
next
  case (5 st)
  then show ?case by (simp split: if_splits)
next
  case (6 r r' st)
  from 6(3) obtain st1 where s1: "st1 \<in> set (ms r st)" and s2: "st' \<in> set (ms r' st1)"
    by auto
  from 6(2) [OF s1 s2 6(1) [OF s1 6(4)]] show ?case .
next
  case (7 r r' st)
  from 7(3) have "st' \<in> set (ms r st) \<or> st' \<in> set (ms r' st)" by simp
  then show ?case using 7(1) 7(2) 7(4) by blast
next
  case (8 r st)
  from 8(3) consider "st' = st"
    | st1 where "st1 \<in> set (ms r st)" "length (fst (snd st1)) < length (fst (snd st))"
        "st' \<in> set (ms (RStar r) st1)"
    by (subst (asm) ms_star) (auto split: if_splits)
  then show ?case
  proof cases
    case 1
    then show ?thesis using 8(4) by simp
  next
    case 2
    from 8(2) [OF 2(1) 2(2) 2(3) 8(1) [OF 2(1) 8(4)]] show ?thesis .
  qed
next
  case (9 r st)
  from 9(2) have "st' \<in> set (ms r st) \<or> st' = st" by auto
  then show ?case using 9(1) 9(3) by blast
next
  case (10 k' r st)
  from 10(2) obtain st1 where s1: "st1 \<in> set (ms r st)"
    and s': "st' = (fst st1, fst (snd st1), (k', fst st, fst st1) # snd (snd st1))"
    by (auto simp: case_prod_beta)
  from 10(1) [OF s1 10(3)] s' show ?case by simp
qed

lemma ms_capture_key:
  "st' \<in> set (ms (RCapture k r) st) \<Longrightarrow> k \<in> fst ` set (snd (snd st'))"
  by (auto simp: case_prod_beta)

lemma allMatches_elem:
  "(m0, m1, c) \<in> set (allMatches re pos s prev) \<Longrightarrow>
     pos \<le> m0 \<and> m1 \<le> pos + length s \<and>
     (\<exists>s' sts. ms re (m0, drop (m0 - pos) s, []) = (m1, s', c) # sts)"
proof (induction re pos s prev rule: allMatches.induct)
  case (1 re pos s prev)
  note am = 1(3) [unfolded allMatches.simps [of re pos s prev]]
  show ?case
  proof (cases "findFirst re pos s")
    case None
    with am show ?thesis by simp
  next
    case (Some t)
    obtain b e c' where t: "t = (b, e, c')" by (cases t)
    note ff = Some [unfolded t]
    from findFirst_bounds [OF ff] have bnd: "pos \<le> b" "b \<le> e" "e \<le> pos + length s"
      by simp_all
    note here = findFirst_match [OF ff]
    show ?thesis
    proof (cases "e = pos")
      case True
      let ?w = "snd (DecodeRuneInString s)"
      from am ff True consider "(m0, m1, c) = (b, e, c')"
        | "s \<noteq> []" "(m0, m1, c) \<in> set (allMatches re (pos + ?w) (drop ?w s) (int e))"
        by (auto simp: Let_def split: if_splits)
      then show ?thesis
      proof cases
        case 1
        then show ?thesis using bnd here by simp
      next
        case 2
        from 1(1) [OF Some t [symmetric] refl True refl refl 2(1) 2(2)]
        have ih: "pos + ?w \<le> m0 \<and> m1 \<le> pos + ?w + length (drop ?w s) \<and>
                  (\<exists>s' sts. ms re (m0, drop (m0 - (pos + ?w)) (drop ?w s), [])
                              = (m1, s', c) # sts)" .
        then have le: "pos + ?w \<le> m0" by blast
        then have eq: "drop (m0 - (pos + ?w)) (drop ?w s) = drop (m0 - pos) s" by simp
        from ih [unfolded eq] le decode_width_le [of s] show ?thesis by auto
      qed
    next
      case False
      from am ff False consider "(m0, m1, c) = (b, e, c')"
        | "(m0, m1, c) \<in> set (allMatches re e (drop (e - pos) s) (int e))"
        by auto
      then show ?thesis
      proof cases
        case 1
        then show ?thesis using bnd here by simp
      next
        case 2
        from 1(2) [OF Some t [symmetric] refl False 2]
        have ih: "e \<le> m0 \<and> m1 \<le> e + length (drop (e - pos) s) \<and>
                  (\<exists>s' sts. ms re (m0, drop (m0 - e) (drop (e - pos) s), [])
                              = (m1, s', c) # sts)" .
        then have le: "e \<le> m0" by blast
        with bnd have eq: "drop (m0 - e) (drop (e - pos) s) = drop (m0 - pos) s" by simp
        from ih [unfolded eq] le bnd show ?thesis by auto
      qed
    qed
  qed
qed

lemma FindAll_wellMatch:
  assumes "m \<in> set (FindAllStringSubmatchIndex re l)"
  shows "wellMatch l m \<and>
         (\<exists>s'. (fst (snd m), s', snd (snd m)) \<in> set (ms re (fst m, drop (fst m) l, [])))"
proof -
  obtain m0 m1 c where m: "m = (m0, m1, c)" by (cases m)
  from assms m have "(m0, m1, c) \<in> set (allMatches re 0 l (- 1))"
    by (simp add: FindAllStringSubmatchIndex_def)
  from allMatches_elem [OF this] obtain s' sts
    where le: "m1 \<le> length l" and r: "ms re (m0, drop m0 l, []) = (m1, s', c) # sts"
    by auto
  then have mem: "(m1, s', c) \<in> set (ms re (m0, drop m0 l, []))" by simp
  from ms_pos_mono [OF mem] have "m0 \<le> m1" by simp
  moreover have "\<forall>k a b. (k, a, b) \<in> set c \<longrightarrow> m0 \<le> a \<and> a \<le> b \<and> b \<le> m1"
    using ms_caps_bounds [OF mem] by auto
  ultimately show ?thesis using le mem m by (auto simp: wellMatch_def)
qed

lemma lineLoop_total:
  assumes "\<And>i l errors. \<exists>res. body i l errors = Inr res"
  shows "\<exists>res. lineLoop body m i lines errors = Inr res"
proof (induction lines arbitrary: i errors)
  case Nil
  then show ?case by simp
next
  case (Cons l lines)
  from assms [of i l errors] obtain res where "body i l errors = Inr res" by blast
  then show ?case using Cons [of "Suc i" res] by auto
qed

lemma slice_ok: "a \<le> b \<Longrightarrow> b \<le> length s \<Longrightarrow> \<exists>x. slice s a b = Inr x"
  by (simp add: slice_def)

lemma hexMatches_total:
  "\<forall>m\<in>set matches. wellMatch l m \<Longrightarrow> \<exists>res. hexMatches i l matches errors = Inr res"
proof (induction matches arbitrary: errors)
  case Nil
  then show ?case by simp
next
  case (Cons m rest)
  obtain m0 m1 c where m: "m = (m0, m1, c)" by (cases m)
  from Cons.prems m have wm: "m0 \<le> m1" "m1 \<le> length l"
    "\<And>k a b. (k, a, b) \<in> set c \<Longrightarrow> m0 \<le> a \<and> a \<le> b \<and> b \<le> m1"
    by (auto simp: wellMatch_def)
  let ?hexEnd = "case map_of c 1 of Some (g0, g1) \<Rightarrow> g0 | None \<Rightarrow> m1"
  have "m0 \<le> ?hexEnd \<and> ?hexEnd \<le> length l"
  proof (cases "map_of c 1")
    case None
    then show ?thesis using wm by simp
  next
    case (Some g)
    obtain g0 g1 where g: "g = (g0, g1)" by (cases g)
    from Some g have "(1, g0, g1) \<in> set c" by (simp add: map_of_SomeD)
    from wm(3) [OF this] wm(2) Some g show ?thesis by simp
  qed
  then obtain hexCode where "slice l m0 ?hexEnd = Inr hexCode" using slice_ok by blast
  moreover from Cons.prems have "\<forall>m\<in>set rest. wellMatch l m" by simp
  ultimately show ?case using Cons.IH m by (simp add: and_then_def)
qed

lemma MustCompile_InvalidHex: "\<exists>re. MustCompile reInvalidHex = Inr re"
  by (simp add: MustCompile_def reInvalidHex_def hexDigitClass_def)

lemma validateHexColors_total: "\<exists>errs. validateHexColors content opts = Inr errs"
proof -
  from MustCompile_InvalidHex obtain re where re: "MustCompile reInvalidHex = Inr re" by blast
  have "\<And>i l errors. \<exists>res. hexLine re i l errors = Inr res"
    using hexMatches_total FindAll_wellMatch by (simp add: hexLine_def)
  from lineLoop_total [of "hexLine re", OF this] show ?thesis
    by (simp add: validateHexColors_def re and_then_def)
qed

lemma validateControlCharacters_total:
  "\<exists>errs. validateControlCharacters content opts = Inr errs"
  using lineLoop_total [of controlLine] by (simp add: validateControlCharacters_def controlLine_def)

lemma compile_PStr: "\<exists>r. compile (PStr s) = Inr r"
  by (induction s rule: PStr.induct) auto

lemma MustCompile_PStr: "\<exists>r. MustCompile (PStr s) = Inr r"
  using compile_PStr [of s] by (auto simp: MustCompile_def)

lemma key_map_of: "k \<in> fst ` set c \<Longrightarrow> \<exists>a b. map_of c k = Some (a, b)"
  by (cases "map_of c k") (auto simp: map_of_eq_None_iff)

lemma wellMatch_group:
  assumes "wellMatch l (m0, m1, c)" and "map_of c k = Some (a, b)"
  shows "a \<le> b \<and> b \<le> length l"
proof -
  from assms(2) have "(k, a, b) \<in> set c" by (rule map_of_SomeD)
  with assms(1) show ?thesis by (fastforce simp: wellMatch_def)
qed

lemma svgSelfClosing_total:
  "\<forall>m\<in>set matches. wellMatch l m \<and> 1 \<in> fst ` set (snd (snd m)) \<Longrightarrow>
     \<exists>res. svgSelfClosing i l matches errors = Inr res"
proof (induction matches arbitrary: errors)
  case Nil
  then show ?case by simp
next
  case (Cons m rest)
  obtain m0 m1 c where m: "m = (m0, m1, c)" by (cases m)
  from Cons.prems m have wm: "wellMatch l (m0, m1, c)" and key: "1 \<in> fst ` set c" by auto
  from key_map_of [OF key] obtain g0 g1 where g: "map_of c 1 = Some (g0, g1)" by blast
  from wellMatch_group [OF wm g] obtain tagName where tn: "slice l g0 g1 = Inr tagName"
    using slice_ok by blast
  obtain reClose where rc: "MustCompile (PStr (''</'' @ tagName @ ''>'')) = Inr reClose"
    using MustCompile_PStr by blast
  from wm have b: "m0 \<le> m1" "m1 \<le> length l" by (auto simp: wellMatch_def)
  then obtain after where af: "slice l m1 (length l) = Inr after" using slice_ok by blast
  from b obtain content where ct: "slice l m0 m1 = Inr content" using slice_ok by blast
  from Cons.prems have rest: "\<forall>m\<in>set rest. wellMatch l m \<and> 1 \<in> fst ` set (snd (snd m))"
    by simp
  show ?case using Cons.IH [OF rest] m g tn rc af ct
    by (simp add: and_then_def)
qed

lemma svgUnquotedAttr_total:
  "\<forall>m\<in>set matches. wellMatch l m \<and> 1 \<in> fst ` set (snd (snd m))
        \<and> 2 \<in> fst ` set (snd (snd m)) \<Longrightarrow>
     \<exists>res. svgUnquotedAttr i l matches errors = Inr res"
proof (induction matches arbitrary: errors)
  case Nil
  then show ?case by simp
next
  case (Cons m rest)
  obtain m0 m1 c where m: "m = (m0, m1, c)" by (cases m)
  from Cons.prems m have wm: "wellMatch l (m0, m1, c)" and key1: "1 \<in> fst ` set c"
    and key2: "2 \<in> fst ` set c" by auto
  from key_map_of [OF key1] obtain g0 g1 where g: "map_of c 1 = Some (g0, g1)" by blast
  from key_map_of [OF key2] obtain h0 h1 where h: "map_of c 2 = Some (h0, h1)" by blast
  from wellMatch_group [OF wm g] obtain attrName where an: "slice l g0 g1 = Inr attrName"
    using slice_ok by blast
  from wellMatch_group [OF wm h] obtain attrValue where av: "slice l h0 h1 = Inr attrValue"
    using slice_ok by blast
  from Cons.prems have rest: "\<forall>m\<in>set rest. wellMatch l m \<and> 1 \<in> fst ` set (snd (snd m))
        \<and> 2 \<in> fst ` set (snd (snd m))"
    by simp
  show ?case using Cons.IH [OF rest] m g h an av
    by (simp add: and_then_def)
qed

lemma selfClosing_shape:
  "\<exists>re1 A B. MustCompile reSVGSelfClosing = Inr re1 \<and>
       re1 = RCat (RLit 60) (RCat (RCapture 1 A) B)"
  by (simp add: MustCompile_def reSVGSelfClosing_def voidTagNames_def)

lemma unquotedAttr_shape:
  "\<exists>re2 S T A B. MustCompile reSVGUnquotedAttr = Inr re2 \<and>
       re2 = RCat S (RCat T (RCat (RCapture 1 A) (RCat (RLit 61) (RCapture 2 B))))"
  by (simp add: MustCompile_def reSVGUnquotedAttr_def)

lemma validateSVG_total: "\<exists>errs. validateSVG content opts = Inr errs"
proof -
  from selfClosing_shape obtain re1 A B where re1: "MustCompile reSVGSelfClosing = Inr re1"
    and s1: "re1 = RCat (RLit 60) (RCat (RCapture 1 A) B)" by blast
  from unquotedAttr_shape obtain re2 S T C D
    where re2: "MustCompile reSVGUnquotedAttr = Inr re2"
    and s2: "re2 = RCat S (RCat T (RCat (RCapture 1 C) (RCat (RLit 61) (RCapture 2 D))))"
    by blast
  have k1: "1 \<in> fst ` set (snd (snd st'))" if "st' \<in> set (ms re1 st)" for st st' :: mstate
  proof -
    from that have "st' \<in> set (ms (RCat (RLit 60) (RCat (RCapture 1 A) B)) st)"
      by (simp only: s1)
    then obtain st1 :: mstate where "st' \<in> set (ms (RCat (RCapture 1 A) B) st1)"
      unfolding ms_Cat_iff by blast
    then obtain st2 :: mstate where a: "st2 \<in> set (ms (RCapture 1 A) st1)"
      and b: "st' \<in> set (ms B st2)"
      unfolding ms_Cat_iff by blast
    from ms_keys_mono [OF b ms_capture_key [OF a]] show ?thesis .
  qed
  have k2: "1 \<in> fst ` set (snd (snd st')) \<and> 2 \<in> fst ` set (snd (snd st'))"
    if "st' \<in> set (ms re2 st)" for st st' :: mstate
  proof -
    from that have "st' \<in> set (ms (RCat S (RCat T (RCat (RCapture 1 C)
                       (RCat (RLit 61) (RCapture 2 D))))) st)"
      by (simp only: s2)
    then obtain st1 :: mstate
      where "st' \<in> set (ms (RCat T (RCat (RCapture 1 C) (RCat (RLit 61) (RCapture 2 D)))) st1)"
      unfolding ms_Cat_iff by blast
    then obtain st2 :: mstate
      where "st' \<in> set (ms (RCat (RCapture 1 C) (RCat (RLit 61) (RCapture 2 D))) st2)"
      unfolding ms_Cat_iff by blast
    then obtain st3 :: mstate where a: "st3 \<in> set (ms (RCapture 1 C) st2)"
      and "st' \<in> set (ms (RCat (RLit 61) (RCapture 2 D)) st3)"
      unfolding ms_Cat_iff by blast
    then obtain st4 :: mstate where b: "st4 \<in> set (ms (RLit 61) st3)"
      and c: "st' \<in> set (ms (RCapture 2 D) st4)"
      unfolding ms_Cat_iff by blast
    from ms_keys_mono [OF c ms_keys_mono [OF b ms_capture_key [OF a]]] ms_capture_key [OF c]
    show ?thesis by simp
  qed
  have body: "\<exists>res. svgLine re1 re2 i l errors = Inr res" for i l errors
  proof -
    have "\<forall>m\<in>set (FindAllStringSubmatchIndex re1 l).
            wellMatch l m \<and> 1 \<in> fst ` set (snd (snd m))"
    proof
      fix m assume "m \<in> set (FindAllStringSubmatchIndex re1 l)"
      from FindAll_wellMatch [OF this] obtain s' where "wellMatch l m"
        and "(fst (snd m), s', snd (snd m)) \<in> set (ms re1 (fst m, drop (fst m) l, []))"
        by blast
      with k1 [of "(fst (snd m), s', snd (snd m))"]
      show "wellMatch l m \<and> 1 \<in> fst ` set (snd (snd m))" by simp
    qed
    from svgSelfClosing_total [OF this] obtain mid
      where mid: "svgSelfClosing i l (FindAllStringSubmatchIndex re1 l) errors = Inr mid"
      by blast
    have "\<forall>m\<in>set (FindAllStringSubmatchIndex re2 l).
            wellMatch l m \<and> 1 \<in> fst ` set (snd (snd m)) \<and> 2 \<in> fst ` set (snd (snd m))"
    proof
      fix m assume "m \<in> set (FindAllStringSubmatchIndex re2 l)"
      from FindAll_wellMatch [OF this] obtain s' where "wellMatch l m"
        and "(fst (snd m), s', snd (snd m)) \<in> set (ms re2 (fst m, drop (fst m) l, []))"
        by blast
      with k2 [of "(fst (snd m), s', snd (snd m))"]
      show "wellMatch l m \<and> 1 \<in> fst ` set (snd (snd m)) \<and> 2 \<in> fst ` set (snd (snd m))"
        by simp
    qed
    from svgUnquotedAttr_total [OF this] mid show ?thesis
      by (simp add: svgLine_def and_then_def)
  qed
  from lineLoop_total [of "svgLine re1 re2", OF body] show ?thesis
    by (simp add: validateSVG_def re1 re2 and_then_def)
qed

section \<open>The claims\<close>

text \<open>
  C1. Every secondary checker is claimed to return an issue list on every input and
  every budget, \<open>validateCDATASections\<close> in particular. The code does not do so:
  \<open>validateCDATASections\<close> compiles its third pattern, which uses the lookahead
  \<^verbatim>\<open>(?!\<close>, with \<^verbatim>\<open>regexp.MustCompile\<close>, and panics there on every
  content and every budget, before it reads a line. The three other checkers return
  an issue list on every content and every budget: their patterns compile, and each
  index and slice they take lies within the line.
\<close>

theorem secondary_checkers_outcome:
  "validateCDATASections content opts =
     Inl (RegexpPanic ''error parsing regexp: invalid or unsupported Perl syntax: `(?!`'') \<and>
   (\<exists>errs. validateControlCharacters content opts = Inr errs) \<and>
   (\<exists>errs. validateHexColors content opts = Inr errs) \<and>
   (\<exists>errs. validateSVG content opts = Inr errs)"
  using validateCDATASections_panic validateControlCharacters_total validateHexColors_total
    validateSVG_total by blast

text \<open>
  C2. With a budget \<open>N > 0\<close> and an input with more than \<open>N\<close> issues, \<open>validateXML\<close>
  is claimed to return exactly \<open>N\<close> issues. Such an input passes the well-formedness
  check, so the run reaches \<open>validateCDATASections\<close> and panics: on a well-formed
  document whose only line holds three invalid hex colours, with budget 2, the run
  ends in the panic; the hex colour checker alone finds the three issues.
\<close>

theorem validateXML_budget_panics:
  "validateXML wellFormedTokens ''<a>#12 #12 #12</a>'' \<lparr>MaxErrors = 2, Debug = False\<rparr> =
     ([Invoked ''validateBasicXML'',
       Printed ''Basic XML validation passed. Performing additional checks...'',
       Printed ''Checking CDATA sections...'',
       Invoked ''validateCDATASections''],
      Inl (RegexpPanic ''error parsing regexp: invalid or unsupported Perl syntax: `(?!`''))
   \<and> (case validateHexColors ''<a>#12 #12 #12</a>'' \<lparr>MaxErrors = 0, Debug = False\<rparr> of
        Inl p \<Rightarrow> 0 | Inr es \<Rightarrow> length es) = 3"
proof -
  have "(case validateHexColors ''<a>#12 #12 #12</a>'' \<lparr>MaxErrors = 0, Debug = False\<rparr> of
        Inl p \<Rightarrow> 0 | Inr es \<Rightarrow> length es) = 3"
    by code_simp
  then show ?thesis
    by (simp add: validateXML_def validateBasicXML_def wellFormedTokens_def
          validateCDATASections_panic)
qed

text \<open>
  C3. With a budget \<open>N > 0\<close> and an input with more than \<open>N\<close> issues, the result
  of the pipeline is claimed to carry the truncated list and an accurate count of the
  issues found before truncation. On a well-formed document with three invalid hex
  colours on three lines, with budget 2, the run reaches \<open>validateCDATASections\<close> and
  ends in its panic: it returns neither a list nor a count. The hex colour checker
  alone, without a budget, finds the three issues.
\<close>

theorem validateXML_count_panics:
  "validateXML wellFormedTokens
       (''<a>#12'' @ [CHR 0x0A] @ ''#1234'' @ [CHR 0x0A] @ ''#1234567</a>'')
       \<lparr>MaxErrors = 2, Debug = False\<rparr> =
     ([Invoked ''validateBasicXML'',
       Printed ''Basic XML validation passed. Performing additional checks...'',
       Printed ''Checking CDATA sections...'',
       Invoked ''validateCDATASections''],
      Inl (RegexpPanic ''error parsing regexp: invalid or unsupported Perl syntax: `(?!`''))
   \<and> (case validateHexColors
              (''<a>#12'' @ [CHR 0x0A] @ ''#1234'' @ [CHR 0x0A] @ ''#1234567</a>'')
              \<lparr>MaxErrors = 0, Debug = False\<rparr> of
        Inl p \<Rightarrow> 0 | Inr es \<Rightarrow> length es) = 3"
proof -
  have "(case validateHexColors
              (''<a>#12'' @ [CHR 0x0A] @ ''#1234'' @ [CHR 0x0A] @ ''#1234567</a>'')
              \<lparr>MaxErrors = 0, Debug = False\<rparr> of
        Inl p \<Rightarrow> 0 | Inr es \<Rightarrow> length es) = 3"
    by code_simp
  then show ?thesis
    by (simp add: validateXML_def validateBasicXML_def wellFormedTokens_def
          validateCDATASections_panic)
qed

text \<open>
  C4. When \<open>validateBasicXML\<close> reports an issue, the run invokes no secondary checker
  (the trace holds the call of \<open>validateBasicXML\<close> and nothing else) and the result is
  the list of \<open>validateBasicXML\<close>, unchanged.
\<close>

theorem phase_precedence:
  assumes "validateBasicXML dec content \<noteq> []"
  shows "validateXML dec content opts =
           ([Invoked ''validateBasicXML''], Inr (validateBasicXML dec content))"
proof -
  have "length (validateBasicXML dec content) = 1"
    using assms validateBasicXML_length [of dec content]
    by (cases "validateBasicXML dec content") auto
  then show ?thesis
    by (auto simp: validateXML_def Let_def)
qed

theorem phase_precedence_witness:
  "validateBasicXML syntaxErrorTokens ''<a>'' \<noteq> [] \<and>
   validateXML syntaxErrorTokens ''<a>'' \<lparr>MaxErrors = 5, Debug = False\<rparr> =
     ([Invoked ''validateBasicXML''],
      Inr [\<lparr>LineNumber = 1, Column = 2, Line = ''<a>'',
            ErrorType = ''Basic XML Syntax Error'',
            Message = ''XML syntax error on line 1: unexpected EOF'', Content = []\<rparr>])"
proof -
  have b: "validateBasicXML syntaxErrorTokens ''<a>'' =
      [\<lparr>LineNumber = 1, Column = 2, Line = ''<a>'',
            ErrorType = ''Basic XML Syntax Error'',
            Message = ''XML syntax error on line 1: unexpected EOF'', Content = []\<rparr>]"
    by (simp add: validateBasicXML_def syntaxErrorTokens_def
          findErrorPosition_def scanner_tokens_def bytes_Split_nl_def dropCR_def
          MaxScanTokenSize_def)
  then have ne: "validateBasicXML syntaxErrorTokens ''<a>'' \<noteq> []" by simp
  from phase_precedence [OF ne, of "\<lparr>MaxErrors = 5, Debug = False\<rparr>"] b ne
  show ?thesis by simp
qed

text \<open>
  C5. On the line \<^verbatim>\<open><![CDATA[!-- comment -->\<close> the checker is claimed to yield one
  issue of each of the first two kinds, both at column 10. \<open>validateCDATASections\<close>
  panics on this input as on every other. The two checks themselves, run on the line
  with their compiled patterns, yield one issue each, at column 9: the column is
  \<^verbatim>\<open>matches[0] + 9\<close>, the 0-based index of the character after the marker,
  where the other checkers add 1 to a 0-based index.
\<close>

theorem cdata_line_panics_and_column:
  "validateCDATASections ''<![CDATA[!-- comment -->'' opts =
     Inl (RegexpPanic ''error parsing regexp: invalid or unsupported Perl syntax: `(?!`'') \<and>
   and_then (MustCompile reCDATAWithSpecialChar)
      (\<lambda>re1. cdataSpecialChar re1 0 ''<![CDATA[!-- comment -->'' []) =
     Inr [\<lparr>LineNumber = 1, Column = 9, Line = ''<![CDATA[!-- comment -->'',
           ErrorType = ''Special character after CDATA opening'',
           Message = ''Special character '' @ [CHR 0x27] @ ''!'' @ [CHR 0x27]
                       @ '' found immediately after CDATA opening'',
           Content = ''<![CDATA[!''\<rparr>] \<and>
   and_then (MustCompile reCDATAWithExclamation)
      (\<lambda>re2. cdataExclamation re2 0 ''<![CDATA[!-- comment -->'' []) =
     Inr [\<lparr>LineNumber = 1, Column = 9, Line = ''<![CDATA[!-- comment -->'',
           ErrorType = ''Exclamation mark after CDATA opening'',
           Message = ''Exclamation mark found immediately after CDATA opening'',
           Content = ''<![CDATA[!''\<rparr>]"
proof -
  have a: "and_then (MustCompile reCDATAWithSpecialChar)
      (\<lambda>re1. cdataSpecialChar re1 0 ''<![CDATA[!-- comment -->'' []) =
     Inr [\<lparr>LineNumber = 1, Column = 9, Line = ''<![CDATA[!-- comment -->'',
           ErrorType = ''Special character after CDATA opening'',
           Message = ''Special character '' @ [CHR 0x27] @ ''!'' @ [CHR 0x27]
                       @ '' found immediately after CDATA opening'',
           Content = ''<![CDATA[!''\<rparr>]"
    by code_simp
  have b: "and_then (MustCompile reCDATAWithExclamation)
      (\<lambda>re2. cdataExclamation re2 0 ''<![CDATA[!-- comment -->'' []) =
     Inr [\<lparr>LineNumber = 1, Column = 9, Line = ''<![CDATA[!-- comment -->'',
           ErrorType = ''Exclamation mark after CDATA opening'',
           Message = ''Exclamation mark found immediately after CDATA opening'',
           Content = ''<![CDATA[!''\<rparr>]"
    by code_simp
  show ?thesis
    by (simp only: validateCDATASections_panic a b simp_thms)
qed

text \<open>
  C6. Each on a line of its own, \<^verbatim>\<open>#12\<close>, \<^verbatim>\<open>#1234\<close> and \<^verbatim>\<open>#1234567\<close>
  are flagged as invalid hex colours by \<open>validateHexColors\<close>, and \<^verbatim>\<open>#123\<close> and
  \<^verbatim>\<open>#123456\<close> are not, whatever the budget.
\<close>

theorem hex_color_boundary:
  "validateHexColors ''#12'' opts =
     Inr [\<lparr>LineNumber = 1, Column = 1, Line = ''#12'', ErrorType = ''Invalid hex color'',
           Message = ''Invalid hex color code: #12 (should be #RGB, #RRGGBB, or #RRGGBBAA)'',
           Content = ''#12''\<rparr>] \<and>
   validateHexColors ''#1234'' opts =
     Inr [\<lparr>LineNumber = 1, Column = 1, Line = ''#1234'', ErrorType = ''Invalid hex color'',
           Message = ''Invalid hex color code: #1234 (should be #RGB, #RRGGBB, or #RRGGBBAA)'',
           Content = ''#1234''\<rparr>] \<and>
   validateHexColors ''#1234567'' opts =
     Inr [\<lparr>LineNumber = 1, Column = 1, Line = ''#1234567'', ErrorType = ''Invalid hex color'',
           Message = ''Invalid hex color code: #1234567 (should be #RGB, #RRGGBB, or #RRGGBBAA)'',
           Content = ''#1234567''\<rparr>] \<and>
   validateHexColors ''#123'' opts = Inr [] \<and>
   validateHexColors ''#123456'' opts = Inr []"
proof -
  have s: "bytes_Split_nl ''#12'' = [''#12'']" "bytes_Split_nl ''#1234'' = [''#1234'']"
    "bytes_Split_nl ''#1234567'' = [''#1234567'']" "bytes_Split_nl ''#123'' = [''#123'']"
    "bytes_Split_nl ''#123456'' = [''#123456'']"
    by (simp_all add: bytes_Split_nl_def)
  have a: "and_then (MustCompile reInvalidHex) (\<lambda>re. hexLine re 0 ''#12'' []) =
     Inr [\<lparr>LineNumber = 1, Column = 1, Line = ''#12'', ErrorType = ''Invalid hex color'',
           Message = ''Invalid hex color code: #12 (should be #RGB, #RRGGBB, or #RRGGBBAA)'',
           Content = ''#12''\<rparr>]"
    by code_simp
  have b: "and_then (MustCompile reInvalidHex) (\<lambda>re. hexLine re 0 ''#1234'' []) =
     Inr [\<lparr>LineNumber = 1, Column = 1, Line = ''#1234'', ErrorType = ''Invalid hex color'',
           Message = ''Invalid hex color code: #1234 (should be #RGB, #RRGGBB, or #RRGGBBAA)'',
           Content = ''#1234''\<rparr>]"
    by code_simp
  have c: "and_then (MustCompile reInvalidHex) (\<lambda>re. hexLine re 0 ''#1234567'' []) =
     Inr [\<lparr>LineNumber = 1, Column = 1, Line = ''#1234567'', ErrorType = ''Invalid hex color'',
           Message = ''Invalid hex color code: #1234567 (should be #RGB, #RRGGBB, or #RRGGBBAA)'',
           Content = ''#1234567''\<rparr>]"
    by code_simp
  have d: "and_then (MustCompile reInvalidHex) (\<lambda>re. hexLine re 0 ''#123'' []) = Inr []"
    by code_simp
  have e: "and_then (MustCompile reInvalidHex) (\<lambda>re. hexLine re 0 ''#123456'' []) = Inr []"
    by code_simp
  show ?thesis
    by (simp only: hex_one_line [OF s(1)] hex_one_line [OF s(2)] hex_one_line [OF s(3)]
          hex_one_line [OF s(4)] hex_one_line [OF s(5)] a b c d e simp_thms)
qed

text \<open>
  C7. For every line of the input, \<open>validateControlCharacters\<close> yields at most one
  issue, and each issue it yields is for the first control byte of its line: the column
  is the 1-based index of the leftmost byte below 32 other than tab, carriage return and
  newline, no byte before it on the line is such a byte, and the content of the issue is
  that byte. Later control bytes of the line yield nothing.
\<close>

theorem one_issue_per_line:
  assumes "validateControlCharacters content opts = Inr errs"
  shows "(\<forall>i. length (filter (\<lambda>e. LineNumber e = int i + 1) errs) \<le> 1) \<and>
         (\<forall>e\<in>set errs. \<exists>i j.
             i < length (bytes_Split_nl content) \<and>
             j < length (bytes_Split_nl content ! i) \<and>
             LineNumber e = int i + 1 \<and> Column e = int j + 1 \<and>
             Line e = bytes_Split_nl content ! i \<and>
             Content e = [bytes_Split_nl content ! i ! j] \<and>
             controlByte (bytes_Split_nl content ! i ! j) \<and>
             (\<forall>j'<j. \<not> controlByte (bytes_Split_nl content ! i ! j')))"
proof -
  let ?lines = "bytes_Split_nl content"
  let ?F = "\<lambda>k. lineIssue k (?lines ! k) 0 (?lines ! k)"
  from lineLoop_append [of controlLine "\<lambda>i l. lineIssue i l 0 l" ?lines "MaxErrors opts" 0 "[]",
         OF controlLine_append]
  obtain n where n: "n \<le> length ?lines"
    and r: "validateControlCharacters content opts = Inr (concat (map ?F [0..<n]))"
    by (auto simp: validateControlCharacters_def)
  have errs: "errs = concat (map ?F [0..<n])" using assms r by simp
  have ln: "\<And>k e. e \<in> set (?F k) \<Longrightarrow> LineNumber e = int k + 1"
    by (auto simp: lineIssue_def controlIssue_def split: if_splits)
  have len: "\<And>k. length (?F k) \<le> 1" by (simp add: lineIssue_def)
  have one: "\<forall>i. length (filter (\<lambda>e. LineNumber e = int i + 1) errs) \<le> 1"
    using filter_concat_lines [of ?F, OF ln] len by (simp add: errs)
  have first: "\<forall>e\<in>set errs. \<exists>i j.
             i < length ?lines \<and> j < length (?lines ! i) \<and>
             LineNumber e = int i + 1 \<and> Column e = int j + 1 \<and>
             Line e = ?lines ! i \<and> Content e = [?lines ! i ! j] \<and>
             controlByte (?lines ! i ! j) \<and> (\<forall>j'<j. \<not> controlByte (?lines ! i ! j'))"
  proof
    fix e assume "e \<in> set errs"
    then obtain k where k: "k < n" and e: "e \<in> set (?F k)" by (auto simp: errs)
    let ?l = "?lines ! k"
    from e have fc: "firstControl ?l < length ?l"
      and ev: "e = controlIssue k ?l (firstControl ?l) (of_char (?l ! firstControl ?l))"
      by (auto simp: lineIssue_def split: if_splits)
    from firstControl_props [OF fc] have cb: "controlByte (?l ! firstControl ?l)"
      and before: "\<forall>j'<firstControl ?l. \<not> controlByte (?l ! j')" by simp_all
    have "Content e = [?l ! firstControl ?l]"
      using ev encodeRune_controlByte [OF cb] by (simp add: controlIssue_def)
    then show "\<exists>i j. i < length ?lines \<and> j < length (?lines ! i) \<and>
             LineNumber e = int i + 1 \<and> Column e = int j + 1 \<and>
             Line e = ?lines ! i \<and> Content e = [?lines ! i ! j] \<and>
             controlByte (?lines ! i ! j) \<and> (\<forall>j'<j. \<not> controlByte (?lines ! i ! j'))"
      using k n fc ev cb before
      by (intro exI [of _ k] exI [of _ "firstControl ?l"]) (simp add: controlIssue_def)
  qed
  from one first show ?thesis by simp
qed

theorem one_issue_per_line_witness:
  "validateControlCharacters (''ab'' @ [CHR 0x01] @ ''def'' @ [CHR 0x02])
       \<lparr>MaxErrors = 5, Debug = False\<rparr> =
     Inr [\<lparr>LineNumber = 1, Column = 3, Line = ''ab'' @ [CHR 0x01] @ ''def'' @ [CHR 0x02],
           ErrorType = ''Control character'',
           Message = ''Control character (hex 0x01) found'',
           Content = [CHR 0x01]\<rparr>] \<and>
   length (filter (\<lambda>e. LineNumber e = int 0 + 1)
     [\<lparr>LineNumber = 1, Column = 3, Line = ''ab'' @ [CHR 0x01] @ ''def'' @ [CHR 0x02],
           ErrorType = ''Control character'',
           Message = ''Control character (hex 0x01) found'',
           Content = [CHR 0x01]\<rparr>]) \<le> 1 \<and>
   controlByte (bytes_Split_nl (''ab'' @ [CHR 0x01] @ ''def'' @ [CHR 0x02]) ! 0 ! 2) \<and>
   controlByte (bytes_Split_nl (''ab'' @ [CHR 0x01] @ ''def'' @ [CHR 0x02]) ! 0 ! 6)"
proof -
  have run: "validateControlCharacters (''ab'' @ [CHR 0x01] @ ''def'' @ [CHR 0x02])
       \<lparr>MaxErrors = 5, Debug = False\<rparr> =
     Inr [\<lparr>LineNumber = 1, Column = 3, Line = ''ab'' @ [CHR 0x01] @ ''def'' @ [CHR 0x02],
           ErrorType = ''Control character'',
           Message = ''Control character (hex 0x01) found'',
           Content = [CHR 0x01]\<rparr>]"
    by code_simp
  have cb: "controlByte (bytes_Split_nl (''ab'' @ [CHR 0x01] @ ''def'' @ [CHR 0x02]) ! 0 ! 2)"
    "controlByte (bytes_Split_nl (''ab'' @ [CHR 0x01] @ ''def'' @ [CHR 0x02]) ! 0 ! 6)"
    by (simp_all add: bytes_Split_nl_def controlByte_def)
  from one_issue_per_line [OF run] run cb show ?thesis by simp
qed

text \<open>
  C8. For every content and every byte offset that is negative, or greater than or equal
  to the length of the content (the length itself included), \<open>findErrorPosition\<close>
  returns line 1, column 1 and the empty line text. The function is total: it has no
  failing branch.
\<close>

theorem findErrorPosition_out_of_range:
  "offset < 0 \<or> offset \<ge> int (length content) \<Longrightarrow>
     findErrorPosition content offset = (1, 1, [])"
  by (simp add: findErrorPosition_def)

theorem findErrorPosition_out_of_range_witness:
  "(int (length ''<a>'') < 0 \<or> int (length ''<a>'') \<ge> int (length ''<a>'')) \<and>
   findErrorPosition ''<a>'' (int (length ''<a>'')) = (1, 1, []) \<and>
   findErrorPosition ''<a>'' (- 1) = (1, 1, [])"
  using findErrorPosition_out_of_range [of "int (length ''<a>'')" "''<a>''"]
        findErrorPosition_out_of_range [of "- 1" "''<a>''"]
  by simp

text \<open>
  C9. For every content, every tokenizer and every options value, the plain and the
  coloured \<open>validateXML\<close> have the same outcome: the same issue list, or the same
  panic. They differ in the printed lines of the trace only.
\<close>

theorem entry_points_agree:
  "snd (validateXML_color sprint dec content \<lparr>MaxErrors = n, Debug = d, Color = c\<rparr>)
     = snd (validateXML dec content \<lparr>MaxErrors = n, Debug = d\<rparr>)"
  by (cases "validateCDATASections content \<lparr>MaxErrors = n, Debug = d\<rparr>";
      cases "validateControlCharacters content \<lparr>MaxErrors = n, Debug = d\<rparr>";
      cases "validateHexColors content \<lparr>MaxErrors = n, Debug = d\<rparr>";
      cases "validateSVG content \<lparr>MaxErrors = n, Debug = d\<rparr>";
      auto simp add: validateXML_def validateXML_color_def Let_def cdata_opts control_opts
        hex_opts svg_opts)

text \<open>
  C10. A void SVG element written without attributes, such as \<^verbatim>\<open><rect>\<close>, is
  claimed never to be flagged by the self-closing check of \<open>validateSVG\<close>, on any line.
  On the line \<^verbatim>\<open><rect>>\<close> it is flagged: the first \<^verbatim>\<open>>\<close> is taken as the
  character that is not \<^verbatim>\<open>/\<close>, and the second one ends the match.
\<close>

theorem bare_void_tag_flagged_counterexample:
  "validateSVG ''<rect>>'' \<lparr>MaxErrors = 5, Debug = False\<rparr> =
     Inr [\<lparr>LineNumber = 1, Column = 1, Line = ''<rect>>'',
           ErrorType = ''SVG self-closing tag issue'',
           Message = ''SVG <rect> tag should be self-closing with />'',
           Content = ''<rect>>''\<rparr>]"
  by code_simp

text \<open>
  C10, as amended. On every line, an occurrence of \<^verbatim>\<open><name>\<close>, for one of the nine
  tag names, that is not directly followed by another \<^verbatim>\<open>>\<close> is never flagged by the
  self-closing check: no issue of that kind is reported at its column.
\<close>

theorem bare_void_tag_not_flagged:
  assumes run: "validateSVG content opts = Inr errs"
      and i: "i < length (bytes_Split_nl content)"
      and name: "name \<in> set voidTagNames"
      and occ: "drop p (bytes_Split_nl content ! i) = ''<'' @ name @ ''>'' @ rest"
      and rest: "rest = [] \<or> hd rest \<noteq> CHR ''>''"
  shows "\<not> (\<exists>e\<in>set errs. ErrorType e = ''SVG self-closing tag issue'' \<and>
                LineNumber e = int i + 1 \<and> Column e = int p + 1)"
proof
  assume "\<exists>e\<in>set errs. ErrorType e = ''SVG self-closing tag issue'' \<and>
                LineNumber e = int i + 1 \<and> Column e = int p + 1"
  then obtain e where e: "e \<in> set errs" "ErrorType e = ''SVG self-closing tag issue''"
    "LineNumber e = int i + 1" "Column e = int p + 1" by blast
  let ?lines = "bytes_Split_nl content"
  from run obtain re1 re2 where re1: "MustCompile reSVGSelfClosing = Inr re1"
    and loop: "lineLoop (svgLine re1 re2) (MaxErrors opts) 0 ?lines [] = Inr errs"
    by (auto simp: validateSVG_def and_then_Inr_iff)
  let ?Q = "\<lambda>i l e. LineNumber e = int i + 1 \<and>
          (ErrorType e = ''SVG self-closing tag issue'' \<longrightarrow>
             (\<exists>m\<in>set (FindAllStringSubmatchIndex re1 l). Column e = int (fst m) + 1))"
  have "\<exists>new. errs = [] @ new \<and> (\<forall>e\<in>set new. \<exists>k<length ?lines. ?Q (0 + k) (?lines ! k) e)"
    by (rule lineLoop_invariant [where Q = ?Q, OF _ loop]) (rule svgLine_issues)
  then have "\<forall>e\<in>set errs. \<exists>k<length ?lines. ?Q k (?lines ! k) e" by simp
  then have "\<exists>k<length ?lines. ?Q k (?lines ! k) e" using e(1) by (rule bspec)
  then obtain k where k: "k < length ?lines" and q: "?Q k (?lines ! k) e" by blast
  from q e(3) have "k = i" by simp
  with q e(2,4) obtain m where m: "m \<in> set (FindAllStringSubmatchIndex re1 (?lines ! i))"
    and mp: "fst m = p" by auto
  obtain m0 m1 c where mm: "m = (m0, m1, c)" by (cases m)
  from m mp mm have "(p, m1, c) \<in> set (allMatches re1 0 (?lines ! i) (- 1))"
    by (simp add: FindAllStringSubmatchIndex_def)
  from allMatches_match [OF this] have "ms re1 (p, drop p (?lines ! i), []) \<noteq> []" by simp
  with no_match_after_name [OF re1 name rest, of p] occ show False by simp
qed

theorem bare_void_tag_not_flagged_witness:
  "validateSVG ''<g><rect></g>'' \<lparr>MaxErrors = 5, Debug = False\<rparr> = Inr [] \<and>
   0 < length (bytes_Split_nl ''<g><rect></g>'') \<and>
   ''rect'' \<in> set voidTagNames \<and>
   drop 3 (bytes_Split_nl ''<g><rect></g>'' ! 0) = ''<'' @ ''rect'' @ ''>'' @ ''</g>'' \<and>
   hd ''</g>'' \<noteq> CHR ''>'' \<and>
   \<not> (\<exists>e\<in>set []. ErrorType e = ''SVG self-closing tag issue'' \<and>
            LineNumber e = int 0 + 1 \<and> Column e = int 3 + 1)"
proof -
  have run: "validateSVG ''<g><rect></g>'' \<lparr>MaxErrors = 5, Debug = False\<rparr> = Inr []"
    by code_simp
  have i: "0 < length (bytes_Split_nl ''<g><rect></g>'')"
    by (simp add: bytes_Split_nl_def)
  have name: "''rect'' \<in> set voidTagNames" by (simp add: voidTagNames_def)
  have occ: "drop 3 (bytes_Split_nl ''<g><rect></g>'' ! 0) = ''<'' @ ''rect'' @ ''>'' @ ''</g>''"
    by (simp add: bytes_Split_nl_def)
  have rest: "''</g>'' = [] \<or> hd ''</g>'' \<noteq> CHR ''>''" by simp
  from bare_void_tag_not_flagged [OF run i name occ rest] run i name occ
  show ?thesis by simp
qed

end
